theory Spec2Isabelle
  imports
    Complex_Main
    "HOL-Library.Char_ord"
    "HOL-Library.List_Lexorder"
    "HOL-Library.Product_Lexorder"
    "HOL-Library.Multiset"
begin

section \<open>Shared numpy primitives and errors\<close>

text \<open>
  Exceptions of the Python code are values. \<open>ValueError\<close> is what numpy raises for
  \<^verbatim>\<open>np.hstack([])\<close> and for \<^verbatim>\<open>np.max\<close> of an empty array;
  \<open>ZeroDivisionError\<close> is raised by \<^verbatim>\<open>RescaleIntensity.divide\<close>.
\<close>

datatype error = ValueError | ZeroDivisionError

text \<open>\<^verbatim>\<open>np.hstack(list of 1-d arrays)\<close>: concatenation; an empty list of arrays raises.\<close>

definition np_hstack :: "'a list list \<Rightarrow> error + 'a list" where
  "np_hstack arrays = (if arrays = [] then Inl ValueError else Inr (concat arrays))"

text \<open>\<^verbatim>\<open>np.max(a)\<close> and \<^verbatim>\<open>np.min(a)\<close>: an empty array raises.\<close>

definition np_max :: "('a::linorder) list \<Rightarrow> error + 'a" where
  "np_max a = (if a = [] then Inl ValueError else Inr (Max (set a)))"

definition np_min :: "('a::linorder) list \<Rightarrow> error + 'a" where
  "np_min a = (if a = [] then Inl ValueError else Inr (Min (set a)))"

text \<open>
  \<^verbatim>\<open>np.lexsort((a, b))\<close>: the indices that sort by \<open>b\<close> first and by \<open>a\<close> second;
  the sort is stable, as \<open>sort_key\<close> is.
\<close>

definition np_lexsort :: "nat list \<Rightarrow> nat list \<Rightarrow> nat list" where
  "np_lexsort a b = sort_key (\<lambda>i. (b ! i, a ! i)) [0..<length b]"

text \<open>\<^verbatim>\<open>a[order]\<close> for an index array \<open>order\<close>.\<close>

definition take_indices :: "'a list \<Rightarrow> nat list \<Rightarrow> 'a list" where
  "take_indices a order = map (\<lambda>i. a ! i) order"

text \<open>
  \<^verbatim>\<open>a[idx] = vals\<close> for an index array \<open>idx\<close>: the assignments happen in sequence,
  so a repeated index keeps the last value. An index beyond the array would raise in
  numpy; \<^verbatim>\<open>prepare_run\<close> makes the array one longer than its largest index.
\<close>

definition put_indices :: "'a list \<Rightarrow> nat list \<Rightarrow> 'a list \<Rightarrow> 'a list" where
  "put_indices a idx vals = fold (\<lambda>(i, v) acc. acc[i := v]) (zip idx vals) a"

section \<open>Groups (src/cellprofiler/modules/groups.py)\<close>

text \<open>
  One grouping as \<^verbatim>\<open>Measurements.get_groupings\<close> delivers it (docstring of
  \<^verbatim>\<open>Groups.get_groupings\<close>): the values of the grouping keys, and the image
  numbers of the image sets of that group. Image numbers are natural numbers.

  The object that holds the values of the keys is built by the measurements class,
  outside the two modules. Its type is the parameter \<open>'k\<close>; \<^verbatim>\<open>sorted(groupings)\<close>
  compares these objects, so \<open>'k\<close> is linearly ordered wherever groupings are sorted.
  The GroupKey of section 3 of the spec is the instance \<open>string list\<close>: the tuple of the
  values in the order in which the keys are configured, tuples and strings comparing as in
  Python, element by element, a proper prefix being smaller.
\<close>

type_synonym 'k grouping = "'k \<times> nat list"

text \<open>
  The measurements object \<open>m\<close> of the workspace is a collaborator declared outside
  the two modules. \<^verbatim>\<open>prepare_run\<close> reads it through two methods, which are
  the fields of this record: \<^verbatim>\<open>m.get_feature_names(cpmeas.IMAGE)\<close> and
  \<^verbatim>\<open>m.get_groupings(key_list)\<close>. It writes to it through three methods, which
  are recorded as calls, in the order in which they are made.
\<close>

record 'k measurements =
  get_feature_names :: "string list"
  m_get_groupings :: "string list \<Rightarrow> 'k grouping list"

datatype object_name = IMAGE

datatype feature = GROUP_NUMBER | GROUP_INDEX

datatype measurements_call =
    Reorder_image_measurements "nat list"
  | Add_all_measurements object_name feature "nat list"
  | Set_grouping_tags "string list option"

record 'k workspace =
  in_batch_mode :: bool
  ws_measurements :: "'k measurements"

record groups =
  wants_groups :: bool
  grouping_metadata :: "string list"

text \<open>
  \<^verbatim>\<open>cpmeas.C_METADATA\<close>: the category prefix of metadata features; the docstrings
  of both modules show the resulting names (\<^verbatim>\<open>'Metadata_Row'\<close>).
\<close>

definition C_METADATA :: string where
  "C_METADATA = ''Metadata''"

definition get_grouping_tags :: "groups \<Rightarrow> string list option" where
  "get_grouping_tags self =
     (if \<not> wants_groups self then None
      else Some (map (\<lambda>g. C_METADATA @ ''_'' @ g) (grouping_metadata self)))"

text \<open>
  \<^verbatim>\<open>Groups.get_groupings\<close>: \<open>None\<close> when grouping is off or when a key is not a
  feature name of the image measurements (the module is mis-configured).
  \<^verbatim>\<open>get_grouping_tags\<close> gives \<open>None\<close> only when grouping is off, which the
  first test has excluded.
\<close>

definition get_groupings ::
  "groups \<Rightarrow> 'k workspace \<Rightarrow> (string list \<times> 'k grouping list) option" where
  "get_groupings self ws =
     (if \<not> wants_groups self then None
      else
        case get_grouping_tags self of
          None \<Rightarrow> None
        | Some key_list \<Rightarrow>
            let m = ws_measurements ws
            in if list_ex (\<lambda>key. key \<notin> set (get_feature_names m)) key_list then None
               else Some (key_list, m_get_groupings m key_list))"

text \<open>
  The arrays that \<^verbatim>\<open>prepare_run\<close> computes from the groupings (lines 401 to 424):
  \<open>ordered_image_numbers\<close> is \<^verbatim>\<open>image_numbers[order]\<close>, the old image numbers in
  their new sequence (the ordering of the spec).
\<close>

record group_arrays =
  ordered_image_numbers :: "nat list"
  group_numbers :: "nat list"
  group_indexes :: "nat list"
  new_image_numbers :: "nat list"

definition prepare_run_arrays :: "('k::linorder) grouping list \<Rightarrow> error + group_arrays" where
  "prepare_run_arrays groupings0 =
     (let groupings = sort groupings0 in
      case np_hstack (map (\<lambda>(i, (keys, image_numbers)). replicate (length image_numbers) (i + 1))
                        (enumerate 0 groupings)) of
        Inl e \<Rightarrow> Inl e
      | Inr group_numbers0 \<Rightarrow>
      (case np_hstack (map (\<lambda>(keys, image_numbers). map (\<lambda>j. j + 1) [0..<length image_numbers])
                        groupings) of
        Inl e \<Rightarrow> Inl e
      | Inr group_indexes0 \<Rightarrow>
      (case np_hstack (map (\<lambda>(keys, image_numbers). image_numbers) groupings) of
        Inl e \<Rightarrow> Inl e
      | Inr image_numbers \<Rightarrow>
        let order = np_lexsort group_indexes0 group_numbers0 in
        (case np_max image_numbers of
          Inl e \<Rightarrow> Inl e
        | Inr mx \<Rightarrow>
            Inr \<lparr> ordered_image_numbers = take_indices image_numbers order,
                  group_numbers = take_indices group_numbers0 order,
                  group_indexes = take_indices group_indexes0 order,
                  new_image_numbers =
                    put_indices (replicate (mx + 1) 0) (take_indices image_numbers order)
                      (map (\<lambda>j. j + 1) [0..<length image_numbers]) \<rparr>))))"

text \<open>
  \<^verbatim>\<open>Groups.prepare_run\<close>: the returned value (or the exception) and the calls made
  on the measurements, in order.
\<close>

definition prepare_run ::
  "groups \<Rightarrow> ('k::linorder) workspace \<Rightarrow> (error + bool) \<times> measurements_call list" where
  "prepare_run self ws =
     (if in_batch_mode ws then (Inr True, [])
      else if \<not> wants_groups self then (Inr True, [])
      else
        case get_groupings self ws of
          None \<Rightarrow> (Inr False, [])
        | Some (key_list, groupings) \<Rightarrow>
            (case prepare_run_arrays groupings of
               Inl e \<Rightarrow> (Inl e, [])
             | Inr a \<Rightarrow>
                 (Inr True,
                  [Reorder_image_measurements (new_image_numbers a),
                   Add_all_measurements IMAGE GROUP_NUMBER (group_numbers a),
                   Add_all_measurements IMAGE GROUP_INDEX (group_indexes a),
                   Set_grouping_tags (get_grouping_tags self)])))"

text \<open>
  The three arrays that \<^verbatim>\<open>prepare_run\<close> stacks, read side by side: one row
  (image number, group number, group index) per image set, group after group, the groups
  numbered from \<open>n + 1\<close>. The properties of the arrays are stated on these rows.
\<close>

fun group_rows :: "nat \<Rightarrow> 'k grouping list \<Rightarrow> (nat \<times> nat \<times> nat) list" where
  "group_rows n [] = []"
| "group_rows n ((keys, image_numbers) # gs) =
     map (\<lambda>(j, i). (i, n + 1, j + 1)) (enumerate 0 image_numbers) @ group_rows (Suc n) gs"

text \<open>
  Modelled from the spec: \<^verbatim>\<open>reorder_image_measurements\<close> is a method of the
  measurements class, outside the two modules. By sections 4.1 and 6 of the spec the
  store is reordered according to the ordering; line 424 writes, at the index of an old
  image number, its place in the ordering. So image set \<open>i\<close> becomes image set
  \<^verbatim>\<open>new_image_numbers[i]\<close>, and these are the groupings that the measurements
  report afterwards.
\<close>

definition reordered_groupings :: "nat list \<Rightarrow> 'k grouping list \<Rightarrow> 'k grouping list" where
  "reordered_groupings new_numbers groupings =
     map (\<lambda>(keys, image_numbers). (keys, map (\<lambda>i. new_numbers ! i) image_numbers)) groupings"

subsection \<open>The records behind the groupings\<close>

text \<open>
  Modelled from the spec: \<^verbatim>\<open>Measurements.get_groupings\<close> belongs to the
  measurements class, which is declared in neither module. By sections 3, 4.1 (steps 1
  to 3) and 6 of the spec, a record has an image number and a value for every metadata
  key; its GroupKey is the tuple of its values for the grouping keys, in the order the
  keys are configured; a group is the records that share one GroupKey, in arrival order.
\<close>

record image_set_record =
  image_number :: nat
  get_metadata :: "string \<Rightarrow> string"

definition group_key :: "string list \<Rightarrow> image_set_record \<Rightarrow> string list" where
  "group_key key_list r = map (get_metadata r) key_list"

definition records_get_groupings ::
  "image_set_record list \<Rightarrow> string list \<Rightarrow> string list grouping list" where
  "records_get_groupings records key_list =
     map (\<lambda>k. (k, map image_number (filter (\<lambda>r. group_key key_list r = k) records)))
       (remdups (map (group_key key_list) records))"

subsection \<open>Example image sets\<close>

text \<open>
  Three image sets with the metadata key \<open>row\<close>: image sets 1 and 3 in row A, image set
  2 in row B. The measurements of a workspace with no image sets report no groups.
\<close>

definition row_record :: "nat \<Rightarrow> string \<Rightarrow> image_set_record" where
  "row_record n v = \<lparr> image_number = n, get_metadata = (\<lambda>k. if k = ''Metadata_row'' then v else []) \<rparr>"

definition example_records :: "image_set_record list" where
  "example_records = [row_record 1 ''A'', row_record 2 ''B'', row_record 3 ''A'']"

definition example_measurements :: "string list measurements" where
  "example_measurements =
     \<lparr> get_feature_names = [''Metadata_row''],
       m_get_groupings = records_get_groupings example_records \<rparr>"

definition example_workspace :: "string list workspace" where
  "example_workspace = \<lparr> in_batch_mode = False, ws_measurements = example_measurements \<rparr>"

definition example_groups :: groups where
  "example_groups = \<lparr> wants_groups = True, grouping_metadata = [''row''] \<rparr>"

definition plate_groups :: groups where
  "plate_groups = \<lparr> wants_groups = True, grouping_metadata = [''plate''] \<rparr>"

definition no_key_groups :: groups where
  "no_key_groups = \<lparr> wants_groups = True, grouping_metadata = [] \<rparr>"

definition empty_workspace :: "string list \<Rightarrow> string list workspace" where
  "empty_workspace features =
     \<lparr> in_batch_mode = False,
       ws_measurements = \<lparr> get_feature_names = features, m_get_groupings = records_get_groupings [] \<rparr> \<rparr>"

section \<open>RescaleIntensity (src/cellprofiler/modules/rescaleintensity.py)\<close>

definition LOW_ALL_IMAGES :: string where
  "LOW_ALL_IMAGES = ''Minimum of all images''"

definition LOW_EACH_IMAGE :: string where
  "LOW_EACH_IMAGE = ''Minimum for each image''"

definition CUSTOM_VALUE :: string where
  "CUSTOM_VALUE = ''Custom''"

definition HIGH_ALL_IMAGES :: string where
  "HIGH_ALL_IMAGES = ''Maximum of all images''"

definition HIGH_EACH_IMAGE :: string where
  "HIGH_EACH_IMAGE = ''Maximum for each image''"

text \<open>
  An image: its pixels (flattened), its mask (one flag per pixel) and whether it has a
  mask. Intensities are real numbers.
\<close>

record image =
  pixel_data :: "real list"
  mask :: "bool list"
  has_mask :: bool

text \<open>\<^verbatim>\<open>image.pixel_data[image.mask]\<close>: the pixels whose mask flag is set.\<close>

definition masked_pixels :: "image \<Rightarrow> real list" where
  "masked_pixels img = map fst (filter snd (zip (pixel_data img) (mask img)))"

record rescale_intensity =
  wants_automatic_low :: string
  wants_automatic_high :: string

text \<open>
  One turn of the loop of \<^verbatim>\<open>prepare_group\<close> over the images of the group; the
  state is \<open>(min_value, max_value)\<close>, \<open>None\<close> as in Python.
\<close>

definition prepare_group_image ::
  "rescale_intensity \<Rightarrow> real option \<times> real option \<Rightarrow> image \<Rightarrow> error + (real option \<times> real option)" where
  "prepare_group_image self st img =
     (case st of (min_value, max_value) \<Rightarrow>
      (case (if wants_automatic_high self = HIGH_ALL_IMAGES then
               (if has_mask img then
                  (case np_max (masked_pixels img) of
                     Inl e \<Rightarrow> Inl e
                   | Inr vmax \<Rightarrow> Inr max_value)
                else
                  (case np_max (pixel_data img) of
                     Inl e \<Rightarrow> Inl e
                   | Inr vmax \<Rightarrow>
                       Inr (Some (case max_value of None \<Rightarrow> vmax | Some v \<Rightarrow> max v vmax))))
             else Inr max_value) of
         Inl e \<Rightarrow> Inl e
       | Inr max_value' \<Rightarrow>
      (case (if wants_automatic_low self = LOW_ALL_IMAGES then
               (if has_mask img then
                  (case np_min (masked_pixels img) of
                     Inl e \<Rightarrow> Inl e
                   | Inr vmin \<Rightarrow> Inr min_value)
                else
                  (case np_min (pixel_data img) of
                     Inl e \<Rightarrow> Inl e
                   | Inr vmin \<Rightarrow>
                       Inr (Some (case min_value of None \<Rightarrow> vmin | Some v \<Rightarrow> min v vmin))))
             else Inr min_value) of
         Inl e \<Rightarrow> Inl e
       | Inr min_value' \<Rightarrow> Inr (min_value', max_value'))))"

fun prepare_group_loop ::
  "rescale_intensity \<Rightarrow> real option \<times> real option \<Rightarrow> image list \<Rightarrow> error + (real option \<times> real option)" where
  "prepare_group_loop self st [] = Inr st"
| "prepare_group_loop self st (img # imgs) =
     (case prepare_group_image self st img of
        Inl e \<Rightarrow> Inl e
      | Inr st' \<Rightarrow> prepare_group_loop self st' imgs)"

text \<open>
  \<^verbatim>\<open>prepare_group\<close>: \<open>d\<close> is the module's dictionary for the image set list
  (\<^verbatim>\<open>get_dictionary\<close>); \<open>images\<close> are the images of the group that the loop
  visits. The result is the returned value (\<open>Some True\<close>, or \<open>None\<close> when the function
  ends without a return statement) and the dictionary.
\<close>

definition prepare_group ::
  "rescale_intensity \<Rightarrow> (string \<rightharpoonup> real option) \<Rightarrow> image list
     \<Rightarrow> error + (bool option \<times> (string \<rightharpoonup> real option))" where
  "prepare_group self d images =
     (if wants_automatic_high self \<noteq> HIGH_ALL_IMAGES \<and> wants_automatic_low self \<noteq> LOW_ALL_IMAGES
      then Inr (Some True, d)
      else
        case prepare_group_loop self (None, None) images of
          Inl e \<Rightarrow> Inl e
        | Inr (min_value, max_value) \<Rightarrow>
            let d1 = (if wants_automatic_high self = HIGH_ALL_IMAGES
                      then d(HIGH_ALL_IMAGES \<mapsto> max_value) else d);
                d2 = (if wants_automatic_low self = LOW_ALL_IMAGES
                      then d1(LOW_ALL_IMAGES \<mapsto> min_value) else d1)
            in Inr (None, d2))"

text \<open>\<^verbatim>\<open>divide\<close>: \<^verbatim>\<open>data / float(value)\<close> is elementwise.\<close>

definition divide_rescale :: "real list \<Rightarrow> real \<Rightarrow> error + real list" where
  "divide_rescale data v = (if v = 0 then Inl ZeroDivisionError else Inr (map (\<lambda>x. x / v) data))"

text \<open>
  \<^verbatim>\<open>scale_by_image_maximum\<close>: \<open>reference_image\<close> is the image that
  \<^verbatim>\<open>workspace.image_set.get_image(self.matching_image_name.value)\<close> returns.
\<close>

definition scale_by_image_maximum :: "image \<Rightarrow> image \<Rightarrow> error + real list" where
  "scale_by_image_maximum reference_image input_image =
     (case np_max (masked_pixels input_image) of
        Inl e \<Rightarrow> Inl e
      | Inr image_max \<Rightarrow>
          if image_max = 0 then Inr (pixel_data input_image)
          else
            (case np_max (masked_pixels reference_image) of
               Inl e \<Rightarrow> Inl e
             | Inr reference_max \<Rightarrow>
                 divide_rescale (map (\<lambda>x. x * reference_max) (pixel_data input_image)) image_max))"

text \<open>The images of a group that have no mask, and all their pixels.\<close>

definition unmasked_images :: "image list \<Rightarrow> image list" where
  "unmasked_images images = filter (\<lambda>img. \<not> has_mask img) images"

definition unmasked_pixels :: "image list \<Rightarrow> real list" where
  "unmasked_pixels images = concat (map pixel_data (unmasked_images images))"

subsection \<open>Example images\<close>

definition masked_bright :: image where
  "masked_bright = \<lparr> pixel_data = [1/4, 7/8], mask = [True, True], has_mask = True \<rparr>"

definition unmasked_dim :: image where
  "unmasked_dim = \<lparr> pixel_data = [1/8, 3/4], mask = [True, True], has_mask = False \<rparr>"

definition all_images_module :: rescale_intensity where
  "all_images_module = \<lparr> wants_automatic_low = LOW_ALL_IMAGES, wants_automatic_high = HIGH_ALL_IMAGES \<rparr>"

definition mixed_dictionary :: "string \<rightharpoonup> real option" where
  "mixed_dictionary = [HIGH_ALL_IMAGES \<mapsto> Some (3/4), LOW_ALL_IMAGES \<mapsto> Some (1/8)]"

definition masked_dictionary :: "string \<rightharpoonup> real option" where
  "masked_dictionary = [HIGH_ALL_IMAGES \<mapsto> None, LOW_ALL_IMAGES \<mapsto> None]"

definition black_image :: image where
  "black_image = \<lparr> pixel_data = [0, 0], mask = [True, True], has_mask = False \<rparr>"

section \<open>The arrays of prepare_run in closed form\<close>

lemma block_image_numbers:
  "map fst (map (\<lambda>(j, i). (i, Suc n, Suc j)) (enumerate 0 xs)) = xs"
  by (auto simp: enumerate_eq_zip intro: nth_equalityI)

lemma block_group_numbers:
  "map (\<lambda>r. fst (snd r)) (map (\<lambda>(j, i). (i, Suc n, Suc j)) (enumerate 0 xs)) =
     replicate (length xs) (Suc n)"
  by (auto simp: enumerate_eq_zip intro: nth_equalityI)

lemma block_group_indexes:
  "map (\<lambda>r. snd (snd r)) (map (\<lambda>(j, i). (i, Suc n, Suc j)) (enumerate 0 xs)) =
     map Suc [0..<length xs]"
  by (auto simp: enumerate_eq_zip intro: nth_equalityI)

lemma rows_image_numbers:
  "map fst (group_rows n gs) = concat (map (\<lambda>(keys, image_numbers). image_numbers) gs)"
  by (induction n gs rule: group_rows.induct) (simp_all add: block_image_numbers del: map_map)

lemma rows_group_numbers:
  "map (\<lambda>r. fst (snd r)) (group_rows n gs) =
     concat (map (\<lambda>(i, (keys, image_numbers)). replicate (length image_numbers) (i + 1)) (enumerate n gs))"
  by (induction n gs rule: group_rows.induct) (simp_all add: block_group_numbers del: map_map)

lemma rows_group_indexes:
  "map (\<lambda>r. snd (snd r)) (group_rows n gs) =
     concat (map (\<lambda>(keys, image_numbers). map (\<lambda>j. j + 1) [0..<length image_numbers]) gs)"
  by (induction n gs rule: group_rows.induct) (simp_all add: block_group_indexes del: map_map)

lemma rows_group_number_ge: "r \<in> set (group_rows n gs) \<Longrightarrow> n < fst (snd r)"
  by (induction n gs rule: group_rows.induct) (auto simp: enumerate_eq_zip)

lemma rows_sorted: "sorted (map snd (group_rows n gs))"
proof (induction n gs rule: group_rows.induct)
  case (1 n)
  then show ?case by simp
next
  case (2 n keys image_numbers gs)
  have block: "sorted (map snd (map (\<lambda>(j, i). (i, n + 1, j + 1)) (enumerate 0 image_numbers)))"
    by (auto simp: sorted_iff_nth_mono enumerate_eq_zip less_eq_prod_def)
  have sep: "\<And>x y. x \<in> set (map (\<lambda>(j, i). (i, n + 1, j + 1)) (enumerate 0 image_numbers)) \<Longrightarrow>
      y \<in> set (group_rows (Suc n) gs) \<Longrightarrow> snd x \<le> snd y"
    using rows_group_number_ge[of _ "Suc n" gs]
    by (fastforce simp: less_eq_prod_def enumerate_eq_zip)
  show ?case
    using block sep 2 by (auto simp: sorted_append)
qed

lemma lexsort_sorted:
  assumes "length a = length b" and "sorted (zip b a)"
  shows "np_lexsort a b = [0..<length b]"
proof -
  have "map (\<lambda>i. (b ! i, a ! i)) [0..<length b] = zip b a"
    using assms(1) by (auto intro: nth_equalityI)
  then show ?thesis
    unfolding np_lexsort_def using assms(2) by (simp add: sort_key_id_if_sorted)
qed

lemma take_indices_all: "take_indices a [0..<length a] = a"
  by (simp add: take_indices_def map_nth)

lemma prepare_run_arrays_rows:
  assumes "concat (map snd gs) \<noteq> []"
  shows "prepare_run_arrays gs =
    Inr \<lparr> ordered_image_numbers = map fst (group_rows 0 (sort gs)),
          group_numbers = map (\<lambda>r. fst (snd r)) (group_rows 0 (sort gs)),
          group_indexes = map (\<lambda>r. snd (snd r)) (group_rows 0 (sort gs)),
          new_image_numbers =
            put_indices (replicate (Max (set (concat (map snd gs))) + 1) 0)
              (map fst (group_rows 0 (sort gs)))
              (map (\<lambda>j. j + 1) [0..<length (concat (map snd gs))]) \<rparr>"
proof -
  let ?sg = "sort gs"
  let ?rows = "group_rows 0 ?sg"
  have "gs \<noteq> []" using assms by auto
  then have ne: "?sg \<noteq> []" by (metis length_sort length_0_conv)
  have set_eq: "set (concat (map snd ?sg)) = set (concat (map snd gs))"
    by simp
  have len_eq: "length (concat (map snd ?sg)) = length (concat (map snd gs))"
  proof -
    have "mset (concat (map snd ?sg)) = mset (concat (map snd gs))"
      by (simp add: mset_concat flip: sum_mset_sum_list)
    then show ?thesis by (rule mset_eq_length)
  qed
  have ne2: "concat (map snd ?sg) \<noteq> []"
    using assms set_eq by (metis set_empty)
  have imgs: "concat (map (\<lambda>(keys, image_numbers). image_numbers) ?sg) = map fst ?rows"
    by (simp add: rows_image_numbers)
  have imgs': "map fst ?rows = concat (map snd ?sg)"
    by (simp add: rows_image_numbers split_def)
  have gn: "concat (map (\<lambda>(i, keys, image_numbers). replicate (length image_numbers) (Suc i)) (enumerate 0 ?sg))
     = map (\<lambda>r. fst (snd r)) ?rows"
    using rows_group_numbers[of 0 ?sg] by simp
  have gi: "concat (map (\<lambda>(keys, image_numbers). map Suc [0..<length image_numbers]) ?sg)
     = map (\<lambda>r. snd (snd r)) ?rows"
    using rows_group_indexes[of 0 ?sg] by simp
  have zip_eq: "zip (map (\<lambda>r. fst (snd r)) ?rows) (map (\<lambda>r. snd (snd r)) ?rows) = map snd ?rows"
    by (auto intro: nth_equalityI)
  have order: "np_lexsort (map (\<lambda>r. snd (snd r)) ?rows) (map (\<lambda>r. fst (snd r)) ?rows) = [0..<length ?rows]"
    using lexsort_sorted[of "map (\<lambda>r. snd (snd r)) ?rows" "map (\<lambda>r. fst (snd r)) ?rows"]
    by (simp add: zip_eq rows_sorted)
  have len_rows: "length ?rows = length (concat (map snd gs))"
    using imgs' len_eq by (metis length_map)
  have t1: "take_indices (map fst ?rows) [0..<length (concat (map snd gs))] = map fst ?rows"
    using take_indices_all[of "map fst ?rows"] len_rows by simp
  have t2: "take_indices (map (\<lambda>r. fst (snd r)) ?rows) [0..<length (concat (map snd gs))] = map (\<lambda>r. fst (snd r)) ?rows"
    using take_indices_all[of "map (\<lambda>r. fst (snd r)) ?rows"] len_rows by simp
  have t3: "take_indices (map (\<lambda>r. snd (snd r)) ?rows) [0..<length (concat (map snd gs))] = map (\<lambda>r. snd (snd r)) ?rows"
    using take_indices_all[of "map (\<lambda>r. snd (snd r)) ?rows"] len_rows by simp
  have ne3: "enumerate 0 ?sg \<noteq> []"
    using ne by (cases ?sg) simp_all
  have rows_ne: "?rows \<noteq> []" using imgs' ne2 by (metis map_is_Nil_conv)
  have mx: "np_max (map fst ?rows) = Inr (Max (set (concat (map snd gs))))"
  proof -
    have a: "map fst ?rows \<noteq> []" using rows_ne by simp
    have b: "set (map fst ?rows) = set (concat (map snd gs))"
      using imgs' set_eq by presburger
    show ?thesis unfolding np_max_def using a b by presburger
  qed
  show ?thesis
    unfolding prepare_run_arrays_def Let_def
    using ne ne3
    by (simp add: np_hstack_def gn gi imgs order t1 t2 t3 mx len_rows)
qed


section \<open>Rows of a group\<close>

lemma length_group_rows: "length (group_rows n gs) = length (concat (map snd gs))"
  by (induction n gs rule: group_rows.induct) (simp_all add: enumerate_eq_zip)

lemma rows_group_numbers_set:
  "\<forall>g \<in> set gs. snd g \<noteq> [] \<Longrightarrow>
     set (map (\<lambda>r. fst (snd r)) (group_rows n gs)) = {n + 1..n + length gs}"
proof (induction n gs rule: group_rows.induct)
  case (1 n)
  then show ?case by simp
next
  case (2 n keys image_numbers gs)
  have blk: "set (map (\<lambda>r. fst (snd r)) (map (\<lambda>(j, i). (i, Suc n, Suc j)) (enumerate 0 image_numbers))) = {Suc n}"
    unfolding block_group_numbers using 2 by simp
  have ih: "set (map (\<lambda>r. fst (snd r)) (group_rows (Suc n) gs)) = {Suc n + 1..Suc n + length gs}"
    using 2 by simp
  have "set (map (\<lambda>r. fst (snd r)) (group_rows n ((keys, image_numbers) # gs))) =
      {Suc n} \<union> {Suc n + 1..Suc n + length gs}"
    using blk ih by (simp del: map_map add: image_Un)
  also have "\<dots> = {n + 1..n + length ((keys, image_numbers) # gs)}"
    by auto
  finally show ?case .
qed

lemma rows_filter_lt:
  "g \<le> n \<Longrightarrow> filter (\<lambda>(i, g', x). g' = g) (group_rows n gs) = []"
  by (auto simp: filter_empty_conv dest!: rows_group_number_ge)

lemma block_filter_eq:
  "filter (\<lambda>(i, g', x). g' = Suc n) (map (\<lambda>(j, i). (i, Suc n, Suc j)) (enumerate 0 xs)) =
     map (\<lambda>(j, i). (i, Suc n, Suc j)) (enumerate 0 xs)"
  by (rule filter_True) auto

lemma block_filter_neq:
  "g \<noteq> Suc n \<Longrightarrow>
     filter (\<lambda>(i, g', x). g' = g) (map (\<lambda>(j, i). (i, Suc n, Suc j)) (enumerate 0 xs)) = []"
  by (rule filter_False) auto

lemma block_members:
  "map (\<lambda>(i, g, x). (i, x)) (map (\<lambda>(j, i). (i, Suc n, Suc j)) (enumerate 0 xs)) =
     zip xs (map Suc [0..<length xs])"
  by (rule nth_equalityI) (simp_all add: enumerate_eq_zip)

lemma rows_filter_group:
  "p < length gs \<Longrightarrow>
     map (\<lambda>(i, g, x). (i, x)) (filter (\<lambda>(i, g, x). g = n + p + 1) (group_rows n gs)) =
       zip (snd (gs ! p)) (map Suc [0..<length (snd (gs ! p))])"
proof (induction n gs arbitrary: p rule: group_rows.induct)
  case (1 n)
  then show ?case by simp
next
  case (2 n keys image_numbers gs)
  show ?case
  proof (cases p)
    case 0
    have "filter (\<lambda>(i, g, x). g = Suc n) (group_rows n ((keys, image_numbers) # gs)) =
        map (\<lambda>(j, i). (i, Suc n, Suc j)) (enumerate 0 image_numbers)"
      using rows_filter_lt[of "Suc n" "Suc n" gs]
      by (simp add: block_filter_eq del: map_map)
    then show ?thesis using 0 by (simp add: block_members del: map_map)
  next
    case (Suc p')
    have "filter (\<lambda>(i, g, x). g = Suc (Suc (n + p'))) (group_rows n ((keys, image_numbers) # gs)) =
        filter (\<lambda>(i, g, x). g = Suc (Suc (n + p'))) (group_rows (Suc n) gs)"
      by (simp add: block_filter_neq del: map_map)
    then show ?thesis using Suc 2(1)[of p'] 2(2) by simp
  qed
qed

lemma block_member:
  assumes "j < length xs"
  shows "(xs ! j, Suc n, Suc j) \<in> set (map (\<lambda>(j, i). (i, Suc n, Suc j)) (enumerate 0 xs))"
proof -
  have "(j, xs ! j) \<in> set (enumerate 0 xs)"
    using assms by (simp add: in_set_enumerate_eq)
  then show ?thesis by force
qed

lemma rows_member:
  "p < length gs \<Longrightarrow> j < length (snd (gs ! p)) \<Longrightarrow>
     (snd (gs ! p) ! j, n + p + 1, j + 1) \<in> set (group_rows n gs)"
proof (induction n gs arbitrary: p rule: group_rows.induct)
  case (1 n)
  then show ?case by simp
next
  case (2 n keys image_numbers gs)
  show ?case
  proof (cases p)
    case 0
    then show ?thesis using 2(2,3) block_member[of j image_numbers n]
      by (simp del: map_map)
  next
    case (Suc p')
    then show ?thesis using 2 by simp
  qed
qed


section \<open>Index assignment\<close>

lemma put_indices_Cons:
  "put_indices a (i # idx) (v # vals) = put_indices (a[i := v]) idx vals"
  by (simp add: put_indices_def)

lemma put_indices_Nil: "put_indices a [] vals = a" "put_indices a idx [] = a"
  by (simp_all add: put_indices_def)

lemma length_put_indices: "length (put_indices a idx vals) = length a"
proof (induction idx arbitrary: a vals)
  case Nil
  then show ?case by (simp add: put_indices_Nil)
next
  case (Cons i idx)
  then show ?case by (cases vals) (simp_all add: put_indices_Nil put_indices_Cons)
qed

lemma put_indices_other: "i \<notin> set idx \<Longrightarrow> put_indices a idx vals ! i = a ! i"
proof (induction idx arbitrary: a vals)
  case Nil
  then show ?case by (simp add: put_indices_Nil)
next
  case (Cons k idx)
  then show ?case by (cases vals) (simp_all add: put_indices_Nil put_indices_Cons)
qed

lemma put_indices_nth:
  "distinct idx \<Longrightarrow> length idx = length vals \<Longrightarrow> j < length idx \<Longrightarrow> idx ! j < length a \<Longrightarrow>
     put_indices a idx vals ! (idx ! j) = vals ! j"
proof (induction idx arbitrary: a vals j)
  case Nil
  then show ?case by simp
next
  case (Cons i idx)
  then obtain v vs where vals: "vals = v # vs" by (cases vals) auto
  show ?case
  proof (cases j)
    case 0
    then show ?thesis using Cons.prems vals
      by (simp add: put_indices_Cons put_indices_other)
  next
    case (Suc j')
    then show ?thesis using Cons.prems vals Cons.IH[of vs j' "a[i := v]"]
      by (simp add: put_indices_Cons)
  qed
qed


section \<open>Sorting the groupings\<close>

lemma fst_mono_prod: "(x :: 'a::linorder \<times> 'b::linorder) \<le> y \<Longrightarrow> fst x \<le> fst y"
  by (auto simp: less_eq_prod_def)

lemma sorted_map_fst: "sorted (xs :: ('a::linorder \<times> 'b::linorder) list) \<Longrightarrow> sorted (map fst xs)"
  by (induction xs) (auto simp: fst_mono_prod)

lemma map_fst_sort:
  assumes "distinct (map fst (gs :: ('a::linorder \<times> 'b::linorder) list))"
  shows "map fst (sort gs) = sort (map fst gs)"
proof (rule sorted_distinct_set_unique)
  show "sorted (map fst (sort gs))" by (simp add: sorted_map_fst)
  have "mset (map fst (sort gs)) = mset (map fst gs)" by simp
  then show "distinct (map fst (sort gs))" using assms by (metis mset_eq_imp_distinct_iff)
  show "sorted (sort (map fst gs))" by simp
  show "distinct (sort (map fst gs))" using assms by simp
  show "set (map fst (sort gs)) = set (sort (map fst gs))" by simp
qed

lemma sorted_same_fst:
  assumes "sorted (xs :: ('a::linorder \<times> 'b::linorder) list)" and "distinct (map fst xs)"
    and "\<And>x. fst (f x) = fst x"
  shows "sorted (map f xs :: ('a \<times> 'c::linorder) list)"
  using assms(1,2)
proof (induction xs)
  case Nil
  then show ?case by simp
next
  case (Cons x xs)
  have "\<And>y. y \<in> set xs \<Longrightarrow> f x \<le> f y"
  proof -
    fix y assume y: "y \<in> set xs"
    then have "x \<le> y" using Cons.prems(1) by simp
    moreover have "fst x \<noteq> fst y" using Cons.prems(2) y by force
    ultimately have "fst x < fst y" by (auto simp: less_eq_prod_def)
    then show "f x \<le> f y" using assms(3) by (simp add: less_eq_prod_def)
  qed
  then show ?case using Cons by simp
qed

lemma reordered_fst: "map fst (reordered_groupings f gs) = map fst gs"
  by (simp add: reordered_groupings_def split_def comp_def)

lemma sort_reordered:
  assumes "distinct (map fst gs)"
  shows "sort (reordered_groupings f gs) = reordered_groupings f (sort gs)"
proof (rule sorted_distinct_set_unique)
  let ?r = "\<lambda>(keys, image_numbers). (keys, map (\<lambda>i. f ! i) image_numbers)"
  have fst_r: "\<And>x. fst (?r x) = fst x" by (simp add: split_def)
  show "sorted (sort (reordered_groupings f gs))" by simp
  have d1: "distinct (map fst (reordered_groupings f gs))" using assms by (simp add: reordered_fst)
  then have "distinct (reordered_groupings f gs)" by (rule distinct_map[THEN iffD1, THEN conjunct1])
  then show "distinct (sort (reordered_groupings f gs))" by simp
  have ds: "distinct (map fst (sort gs))" using assms by (simp add: map_fst_sort)
  then have "distinct (map fst (reordered_groupings f (sort gs)))" by (simp add: reordered_fst)
  then show "distinct (reordered_groupings f (sort gs))" by (rule distinct_map[THEN iffD1, THEN conjunct1])
  show "sorted (reordered_groupings f (sort gs))"
    unfolding reordered_groupings_def
    by (rule sorted_same_fst[OF _ ds fst_r]) simp
  show "set (sort (reordered_groupings f gs)) = set (reordered_groupings f (sort gs))"
    by (simp add: reordered_groupings_def)
qed


section \<open>Runs of the array computation\<close>

lemma mset_concat_sort:
  "mset (concat (map snd (sort gs))) = mset (concat (map snd (gs :: ('k::linorder) grouping list)))"
  by (simp add: mset_concat flip: sum_mset_sum_list)

lemma zip_rows:
  "zip (map fst rows) (zip (map (\<lambda>r. fst (snd r)) rows) (map (\<lambda>r. snd (snd r)) rows)) = rows"
  by (rule nth_equalityI) simp_all

lemma zip_rows_numbers:
  "zip (map fst rows) (map (\<lambda>r. fst (snd r)) rows) = map (\<lambda>r. (fst r, fst (snd r))) rows"
  by (rule nth_equalityI) simp_all

lemma zip_rows_sorted:
  "zip (map (\<lambda>r. fst (snd r)) rows) (map (\<lambda>r. snd (snd r)) rows) = map snd rows"
  by (rule nth_equalityI) simp_all

text \<open>What a successful run of the array computation yields, in terms of the rows.\<close>

lemma prepare_run_arrays_success:
  assumes "concat (map snd gs) \<noteq> []"
  obtains a where "prepare_run_arrays gs = Inr a"
    and "ordered_image_numbers a = concat (map snd (sort gs))"
    and "ordered_image_numbers a = map fst (group_rows 0 (sort gs))"
    and "group_numbers a = map (\<lambda>r. fst (snd r)) (group_rows 0 (sort gs))"
    and "group_indexes a = map (\<lambda>r. snd (snd r)) (group_rows 0 (sort gs))"
    and "new_image_numbers a =
           put_indices (replicate (Max (set (concat (map snd gs))) + 1) 0) (ordered_image_numbers a)
             (map Suc [0..<length (ordered_image_numbers a)])"
    and "length (ordered_image_numbers a) = length (concat (map snd gs))"
proof -
  let ?rows = "group_rows 0 (sort gs)"
  let ?a = "\<lparr> ordered_image_numbers = map fst ?rows,
          group_numbers = map (\<lambda>r. fst (snd r)) ?rows,
          group_indexes = map (\<lambda>r. snd (snd r)) ?rows,
          new_image_numbers =
            put_indices (replicate (Max (set (concat (map snd gs))) + 1) 0)
              (map fst ?rows)
              (map (\<lambda>j. j + 1) [0..<length (concat (map snd gs))]) \<rparr>"
  have run: "prepare_run_arrays gs = Inr ?a"
    by (rule prepare_run_arrays_rows[OF assms])
  have o: "map fst ?rows = concat (map snd (sort gs))"
    by (simp add: rows_image_numbers split_def)
  have len: "length (map fst ?rows) = length (concat (map snd gs))"
    unfolding o using mset_concat_sort[of gs] by (rule mset_eq_length)
  show ?thesis
    by (rule that[of ?a]) (use run o len in simp_all)
qed

lemma Max_Suc_upt: "0 < n \<Longrightarrow> Max (set (map Suc [0..<n])) = n"
  by (rule Max_eqI) (auto simp: image_iff intro!: bexI[of _ "n - 1"])

lemma put_identity:
  "put_indices (replicate (Suc n) 0) (map Suc [0..<n]) (map Suc [0..<n]) = 0 # map Suc [0..<n]"
proof (rule nth_equalityI)
  show "length (put_indices (replicate (Suc n) 0) (map Suc [0..<n]) (map Suc [0..<n])) =
      length (0 # map Suc [0..<n])"
    by (simp add: length_put_indices)
next
  fix i assume "i < length (put_indices (replicate (Suc n) 0) (map Suc [0..<n]) (map Suc [0..<n]))"
  then have i: "i < Suc n" by (simp add: length_put_indices)
  show "put_indices (replicate (Suc n) 0) (map Suc [0..<n]) (map Suc [0..<n]) ! i =
      (0 # map Suc [0..<n]) ! i"
  proof (cases i)
    case 0
    have "0 \<notin> set (map Suc [0..<n])" by simp
    then show ?thesis using 0 by (simp add: put_indices_other)
  next
    case (Suc j)
    then have j: "j < n" using i by simp
    have "put_indices (replicate (Suc n) 0) (map Suc [0..<n]) (map Suc [0..<n]) ! (map Suc [0..<n] ! j) =
        map Suc [0..<n] ! j"
      by (rule put_indices_nth) (use j in \<open>simp_all add: distinct_map\<close>)
    then show ?thesis using Suc j by simp
  qed
qed

lemma new_numbers_of_ordering:
  assumes "concat (map snd gs) \<noteq> []" and "distinct (concat (map snd gs))"
    and "prepare_run_arrays gs = Inr a" and "j < length (ordered_image_numbers a)"
  shows "new_image_numbers a ! (ordered_image_numbers a ! j) = j + 1"
proof -
  obtain a' where a': "prepare_run_arrays gs = Inr a'"
    and o: "ordered_image_numbers a' = concat (map snd (sort gs))"
    and n: "new_image_numbers a' =
           put_indices (replicate (Max (set (concat (map snd gs))) + 1) 0) (ordered_image_numbers a')
             (map Suc [0..<length (ordered_image_numbers a')])"
    by (rule prepare_run_arrays_success[OF assms(1)])
  have aa: "a' = a" using a' assms(3) by simp
  have d: "distinct (ordered_image_numbers a)"
    using assms(2) mset_concat_sort[of gs] unfolding aa[symmetric] o
    by (metis mset_eq_imp_distinct_iff)
  have "ordered_image_numbers a ! j \<in> set (concat (map snd gs))"
    using assms(4) nth_mem[of j "ordered_image_numbers a"] unfolding aa[symmetric] o by simp
  then have le: "ordered_image_numbers a ! j \<le> Max (set (concat (map snd gs)))"
    by (intro Max_ge) simp_all
  have "put_indices (replicate (Max (set (concat (map snd gs))) + 1) 0) (ordered_image_numbers a)
             (map Suc [0..<length (ordered_image_numbers a)]) ! (ordered_image_numbers a ! j) = map Suc [0..<length (ordered_image_numbers a)] ! j"
    by (rule put_indices_nth) (use d assms(4) le in simp_all)
  then show ?thesis using n assms(4) unfolding aa by simp
qed

lemma get_groupings_Some:
  "get_groupings self ws = Some (key_list, gs) \<longleftrightarrow>
     wants_groups self \<and> get_grouping_tags self = Some key_list \<and>
     list_all (\<lambda>key. key \<in> set (get_feature_names (ws_measurements ws))) key_list \<and>
     gs = m_get_groupings (ws_measurements ws) key_list"
  by (auto simp: get_groupings_def Let_def list_ex_iff list_all_iff split: option.splits)

lemma prepare_run_arrays_no_images:
  "concat (map snd gs) = [] \<Longrightarrow> prepare_run_arrays gs = Inl ValueError"
proof (cases "gs = []")
  case True
  then show ?thesis by (simp add: prepare_run_arrays_def np_hstack_def)
next
  case False
  assume e: "concat (map snd gs) = []"
  have "set (concat (map snd (sort gs))) = set (concat (map snd gs))" by simp
  then have e': "concat (map snd (sort gs)) = []" using e by (metis set_empty)
  have "concat (map (\<lambda>(keys, image_numbers). image_numbers) (sort gs)) = []"
    using e' by (simp add: split_def)
  moreover have "sort gs \<noteq> []" using False by (metis length_sort length_0_conv)
  moreover have "enumerate 0 (sort gs) \<noteq> []" using \<open>sort gs \<noteq> []\<close> by (cases "sort gs") simp_all
  ultimately show ?thesis
    by (simp add: prepare_run_arrays_def np_hstack_def np_max_def Let_def del: concat_eq_Nil_conv)
qed

lemma in_sorted_groupings:
  assumes "(k, ims) \<in> set (gs :: ('k::linorder) grouping list)" and "distinct (map fst gs)"
  shows "\<exists>p < length gs. sort gs ! p = (k, ims) \<and> sort (map fst gs) ! p = k"
proof -
  have "(k, ims) \<in> set (sort gs)" using assms(1) by simp
  then obtain p where p: "p < length (sort gs)" "sort gs ! p = (k, ims)"
    by (metis in_set_conv_nth)
  have "sort (map fst gs) ! p = map fst (sort gs) ! p"
    using assms(2) by (simp add: map_fst_sort)
  also have "\<dots> = k" using p by simp
  finally show ?thesis using p by auto
qed

lemma concat_reordered:
  "concat (map snd (reordered_groupings f gs)) = map (\<lambda>i. f ! i) (concat (map snd gs))"
  by (induction gs) (auto simp: reordered_groupings_def)

lemma rows_reordered:
  "map snd (group_rows n (reordered_groupings f gs)) = map snd (group_rows n gs)"
proof (induction n gs rule: group_rows.induct)
  case (1 n)
  then show ?case by (simp add: reordered_groupings_def)
next
  case (2 n keys image_numbers gs)
  have blk: "map snd (map (\<lambda>(j, i). (i, Suc n, Suc j)) (enumerate 0 (map (\<lambda>i. f ! i) image_numbers))) =
      map snd (map (\<lambda>(j, i). (i, Suc n, Suc j)) (enumerate 0 image_numbers))"
    by (rule nth_equalityI) (simp_all add: enumerate_eq_zip)
  have r: "reordered_groupings f ((keys, image_numbers) # gs) =
      (keys, map (\<lambda>i. f ! i) image_numbers) # reordered_groupings f gs"
    by (simp add: reordered_groupings_def)
  show ?case using 2 blk unfolding r by (simp del: map_map)
qed

section \<open>The record model meets the contract of the groupings\<close>

lemma records_groupings_keys:
  "map fst (records_get_groupings records key_list) = remdups (map (group_key key_list) records)"
  by (simp add: records_get_groupings_def comp_def)

lemma records_groupings_distinct_keys:
  "distinct (map fst (records_get_groupings records key_list))"
  by (simp add: records_groupings_keys)

lemma records_groupings_nonempty:
  "\<forall>g \<in> set (records_get_groupings records key_list). snd g \<noteq> []"
  by (auto simp: records_get_groupings_def filter_empty_conv)

lemma sum_filter_keys:
  "distinct ks \<Longrightarrow>
     (\<Sum>k\<leftarrow>ks. mset (filter (\<lambda>x. f x = k) xs)) = mset (filter (\<lambda>x. f x \<in> set ks) xs)"
proof (induction ks)
  case Nil
  then show ?case by simp
next
  case (Cons k ks)
  have "mset (filter (\<lambda>x. f x = k) xs) + mset (filter (\<lambda>x. f x \<in> set ks) xs) =
      mset (filter (\<lambda>x. f x = k \<or> f x \<in> set ks) xs)"
    using Cons.prems by (induction xs) auto
  then show ?case using Cons by simp
qed

lemma sum_list_image_mset:
  "(\<Sum>k\<leftarrow>ks. image_mset g (F k)) = image_mset g (\<Sum>k\<leftarrow>ks. F k)"
  by (induction ks) simp_all

lemma records_groupings_image_numbers:
  "mset (concat (map snd (records_get_groupings records key_list))) = mset (map image_number records)"
proof -
  let ?f = "group_key key_list"
  let ?ks = "remdups (map ?f records)"
  have "mset (concat (map snd (records_get_groupings records key_list))) =
      (\<Sum>k\<leftarrow>?ks. image_mset image_number (mset (filter (\<lambda>r. ?f r = k) records)))"
    by (simp add: records_get_groupings_def mset_concat comp_def)
  also have "\<dots> = image_mset image_number (\<Sum>k\<leftarrow>?ks. mset (filter (\<lambda>r. ?f r = k) records))"
    by (rule sum_list_image_mset)
  also have "(\<Sum>k\<leftarrow>?ks. mset (filter (\<lambda>r. ?f r = k) records)) =
      mset (filter (\<lambda>r. ?f r \<in> set ?ks) records)"
    by (rule sum_filter_keys) simp
  also have "filter (\<lambda>r. ?f r \<in> set ?ks) records = records"
    by (rule filter_True) simp
  finally show ?thesis by simp
qed

lemma records_groupings_distinct_numbers:
  "distinct (map image_number records) \<Longrightarrow>
     distinct (concat (map snd (records_get_groupings records key_list)))"
  using records_groupings_image_numbers[of records key_list]
  by (metis mset_eq_imp_distinct_iff)

lemma records_get_groupings_no_keys:
  assumes "records \<noteq> []"
  shows "records_get_groupings records [] = [([], map image_number records)]"
proof -
  have "remdups (map (\<lambda>r. [] :: string list) records) = [[]]"
    using assms
  proof (induction records)
    case Nil
    then show ?case by simp
  next
    case (Cons r rs)
    then show ?case by (cases rs) auto
  qed
  moreover have "group_key [] = (\<lambda>r. [])"
    by (rule ext) (simp add: group_key_def)
  ultimately show ?thesis by (simp add: records_get_groupings_def)
qed

section \<open>The example image sets\<close>

lemma example_groupings:
  "records_get_groupings example_records [''Metadata_row''] = [([''B''], [2]), ([''A''], [1, 3])]"
  unfolding example_records_def row_record_def by code_simp

lemma example_arrays:
  "prepare_run_arrays [([''B''], [2]), ([''A''], [1, 3])] =
     Inr \<lparr> ordered_image_numbers = [1, 3, 2], group_numbers = [1, 1, 2], group_indexes = [1, 2, 1],
           new_image_numbers = [0, 1, 3, 2] \<rparr>"
  by code_simp

lemma example_run:
  "prepare_run example_groups example_workspace =
     (Inr True,
      [Reorder_image_measurements [0, 1, 3, 2],
       Add_all_measurements IMAGE GROUP_NUMBER [1, 1, 2],
       Add_all_measurements IMAGE GROUP_INDEX [1, 2, 1],
       Set_grouping_tags (Some [''Metadata_row''])])"
  unfolding example_groups_def example_workspace_def example_measurements_def
    example_records_def row_record_def
  by code_simp

lemma plate_run: "prepare_run plate_groups example_workspace = (Inr False, [])"
  by (simp add: prepare_run_def get_groupings_def get_grouping_tags_def C_METADATA_def
      plate_groups_def example_workspace_def example_measurements_def)

lemma example_get_groupings:
  "get_groupings example_groups example_workspace =
     Some ([''Metadata_row''], [([''B''], [2]), ([''A''], [1, 3])])"
  unfolding example_groups_def example_workspace_def example_measurements_def
    example_records_def row_record_def
  by code_simp

section \<open>The loop of prepare_group\<close>

lemma image_step_high:
  assumes "prepare_group_image self (mn, mx) img = Inr (mn1, mx1)"
    and "wants_automatic_high self = HIGH_ALL_IMAGES"
  shows "mx1 = (if has_mask img then mx
                else Some (case mx of None \<Rightarrow> Max (set (pixel_data img))
                                    | Some v \<Rightarrow> max v (Max (set (pixel_data img)))))"
    and "\<not> has_mask img \<Longrightarrow> pixel_data img \<noteq> []"
  using assms
  by (auto simp: prepare_group_image_def np_max_def np_min_def split: if_splits sum.splits option.splits)

lemma image_step_low:
  assumes "prepare_group_image self (mn, mx) img = Inr (mn1, mx1)"
    and "wants_automatic_low self = LOW_ALL_IMAGES"
  shows "mn1 = (if has_mask img then mn
                else Some (case mn of None \<Rightarrow> Min (set (pixel_data img))
                                    | Some v \<Rightarrow> min v (Min (set (pixel_data img)))))"
    and "\<not> has_mask img \<Longrightarrow> pixel_data img \<noteq> []"
  using assms
  by (auto simp: prepare_group_image_def np_max_def np_min_def split: if_splits sum.splits option.splits)

lemma loop_high:
  assumes "prepare_group_loop self (mn, mx) images = Inr (mn', mx')"
    and "wants_automatic_high self = HIGH_ALL_IMAGES"
  shows "(unmasked_images images = [] \<longrightarrow> mx' = mx) \<and>
         (unmasked_images images \<noteq> [] \<longrightarrow> unmasked_pixels images \<noteq> [] \<and>
            mx' = Some (case mx of None \<Rightarrow> Max (set (unmasked_pixels images))
                                 | Some v \<Rightarrow> max v (Max (set (unmasked_pixels images)))))"
  using assms
proof (induction images arbitrary: mn mx)
  case Nil
  then show ?case by (simp add: unmasked_images_def)
next
  case (Cons img imgs)
  from Cons.prems(1) obtain mn1 mx1 where
    step: "prepare_group_image self (mn, mx) img = Inr (mn1, mx1)" and
    rest: "prepare_group_loop self (mn1, mx1) imgs = Inr (mn', mx')"
    by (auto split: sum.splits)
  note ih = Cons.IH[OF rest Cons.prems(2)]
  note s1 = image_step_high(1)[OF step Cons.prems(2)]
  show ?case
  proof (cases "has_mask img")
    case True
    have ui: "unmasked_images (img # imgs) = unmasked_images imgs"
      using True by (simp add: unmasked_images_def)
    have up: "unmasked_pixels (img # imgs) = unmasked_pixels imgs"
      by (simp add: unmasked_pixels_def ui)
    show ?thesis unfolding ui up using ih s1 True by simp
  next
    case False
    have ne: "pixel_data img \<noteq> []" using image_step_high(2)[OF step Cons.prems(2) False] .
    have ui: "unmasked_images (img # imgs) = img # unmasked_images imgs"
      using False by (simp add: unmasked_images_def)
    show ?thesis
    proof (cases "unmasked_images imgs = []")
      case True
      have up1: "unmasked_pixels (img # imgs) = pixel_data img"
        using True False by (simp add: unmasked_images_def unmasked_pixels_def)
      show ?thesis unfolding up1 using ih s1 False ne True ui
        by simp
    next
      case nonempty: False
      then have rne: "unmasked_pixels imgs \<noteq> []" using ih by simp
      have un: "unmasked_pixels (img # imgs) = pixel_data img @ unmasked_pixels imgs"
        using False by (simp add: unmasked_images_def unmasked_pixels_def)
      have mx_un: "Max (set (unmasked_pixels (img # imgs))) =
          max (Max (set (pixel_data img))) (Max (set (unmasked_pixels imgs)))"
        using ne rne by (simp add: un Max_Un)
      show ?thesis using ih s1 False ne nonempty mx_un
        by (auto simp: ui un max.assoc split: option.splits)
    qed
  qed
qed

lemma loop_low:
  assumes "prepare_group_loop self (mn, mx) images = Inr (mn', mx')"
    and "wants_automatic_low self = LOW_ALL_IMAGES"
  shows "(unmasked_images images = [] \<longrightarrow> mn' = mn) \<and>
         (unmasked_images images \<noteq> [] \<longrightarrow> unmasked_pixels images \<noteq> [] \<and>
            mn' = Some (case mn of None \<Rightarrow> Min (set (unmasked_pixels images))
                                 | Some v \<Rightarrow> min v (Min (set (unmasked_pixels images)))))"
  using assms
proof (induction images arbitrary: mn mx)
  case Nil
  then show ?case by (simp add: unmasked_images_def)
next
  case (Cons img imgs)
  from Cons.prems(1) obtain mn1 mx1 where
    step: "prepare_group_image self (mn, mx) img = Inr (mn1, mx1)" and
    rest: "prepare_group_loop self (mn1, mx1) imgs = Inr (mn', mx')"
    by (auto split: sum.splits)
  note ih = Cons.IH[OF rest Cons.prems(2)]
  note s1 = image_step_low(1)[OF step Cons.prems(2)]
  show ?case
  proof (cases "has_mask img")
    case True
    have ui: "unmasked_images (img # imgs) = unmasked_images imgs"
      using True by (simp add: unmasked_images_def)
    have up: "unmasked_pixels (img # imgs) = unmasked_pixels imgs"
      by (simp add: unmasked_pixels_def ui)
    show ?thesis unfolding ui up using ih s1 True by simp
  next
    case False
    have ne: "pixel_data img \<noteq> []" using image_step_low(2)[OF step Cons.prems(2) False] .
    have ui: "unmasked_images (img # imgs) = img # unmasked_images imgs"
      using False by (simp add: unmasked_images_def)
    show ?thesis
    proof (cases "unmasked_images imgs = []")
      case True
      have up1: "unmasked_pixels (img # imgs) = pixel_data img"
        using True False by (simp add: unmasked_images_def unmasked_pixels_def)
      show ?thesis unfolding up1 using ih s1 False ne True ui
        by simp
    next
      case nonempty: False
      then have rne: "unmasked_pixels imgs \<noteq> []" using ih by simp
      have un: "unmasked_pixels (img # imgs) = pixel_data img @ unmasked_pixels imgs"
        using False by (simp add: unmasked_images_def unmasked_pixels_def)
      have mn_un: "Min (set (unmasked_pixels (img # imgs))) =
          min (Min (set (pixel_data img))) (Min (set (unmasked_pixels imgs)))"
        using ne rne by (simp add: un Min_Un)
      show ?thesis using ih s1 False ne nonempty mn_un
        by (auto simp: ui un min.assoc split: option.splits)
    qed
  qed
qed

lemma high_low_keys: "HIGH_ALL_IMAGES \<noteq> LOW_ALL_IMAGES"
  by (simp add: HIGH_ALL_IMAGES_def LOW_ALL_IMAGES_def)


lemma run_mixed:
  "prepare_group all_images_module Map.empty [masked_bright, unmasked_dim] =
     Inr (None, mixed_dictionary)"
  by (simp add: prepare_group_def prepare_group_image_def all_images_module_def masked_bright_def
      unmasked_dim_def masked_pixels_def np_max_def np_min_def mixed_dictionary_def)

lemma run_masked:
  "prepare_group all_images_module Map.empty [masked_bright, masked_bright] =
     Inr (None, masked_dictionary)"
  by (simp add: prepare_group_def prepare_group_image_def all_images_module_def masked_bright_def
      masked_pixels_def np_max_def np_min_def masked_dictionary_def)

section \<open>Claims on Groups\<close>

text \<open>
  C1. Whenever the measurements report at least one image number, the array computation
  succeeds, \<^verbatim>\<open>prepare_run\<close> returns \<open>True\<close>, and the ordering
  (\<^verbatim>\<open>image_numbers[order]\<close>, here \<open>ordered_image_numbers\<close>) is a permutation of
  the image numbers that the measurements reported: the two are equal as multisets, so no number is lost, repeated
  or made up. The rows are sorted by group number and then by group index, and
  \<^verbatim>\<open>new_image_numbers\<close> sends the image number at position \<open>j\<close> of the ordering
  to \<open>j + 1\<close>. The groupings of a sequence of records hold the image numbers of the
  records (lemma \<open>records_groupings_image_numbers\<close>), so the ordering is a permutation of
  these.
\<close>

theorem ordering_is_permutation:
  assumes "get_groupings self ws = Some (key_list, gs)" and "\<not> in_batch_mode ws"
    and "concat (map snd gs) \<noteq> []"
  shows "\<exists>a. prepare_run_arrays gs = Inr a \<and>
           prepare_run self ws =
             (Inr True,
              [Reorder_image_measurements (new_image_numbers a),
               Add_all_measurements IMAGE GROUP_NUMBER (group_numbers a),
               Add_all_measurements IMAGE GROUP_INDEX (group_indexes a),
               Set_grouping_tags (Some key_list)]) \<and>
           mset (ordered_image_numbers a) = mset (concat (map snd gs)) \<and>
           length (group_numbers a) = length (ordered_image_numbers a) \<and>
           length (group_indexes a) = length (ordered_image_numbers a) \<and>
           sorted (zip (group_numbers a) (group_indexes a)) \<and>
           (distinct (concat (map snd gs)) \<longrightarrow>
              (\<forall>j < length (ordered_image_numbers a).
                 new_image_numbers a ! (ordered_image_numbers a ! j) = j + 1))"
proof -
  obtain a where a: "prepare_run_arrays gs = Inr a"
    and o: "ordered_image_numbers a = concat (map snd (sort gs))"
    and gn: "group_numbers a = map (\<lambda>r. fst (snd r)) (group_rows 0 (sort gs))"
    and gi: "group_indexes a = map (\<lambda>r. snd (snd r)) (group_rows 0 (sort gs))"
    and o': "ordered_image_numbers a = map fst (group_rows 0 (sort gs))"
    by (rule prepare_run_arrays_success[OF assms(3)])
  have tags: "get_grouping_tags self = Some key_list" and wg: "wants_groups self"
    using assms(1) by (simp_all add: get_groupings_Some)
  have run: "prepare_run self ws =
             (Inr True,
              [Reorder_image_measurements (new_image_numbers a),
               Add_all_measurements IMAGE GROUP_NUMBER (group_numbers a),
               Add_all_measurements IMAGE GROUP_INDEX (group_indexes a),
               Set_grouping_tags (Some key_list)])"
    using assms(1,2) wg tags a by (simp add: prepare_run_def)
  have perm: "mset (ordered_image_numbers a) = mset (concat (map snd gs))"
    unfolding o by (rule mset_concat_sort)
  have l1: "length (group_numbers a) = length (ordered_image_numbers a)"
    and l2: "length (group_indexes a) = length (ordered_image_numbers a)"
    by (simp_all add: gn gi o')
  have srt: "sorted (zip (group_numbers a) (group_indexes a))"
    unfolding gn gi zip_rows_sorted by (rule rows_sorted)
  have nin: "distinct (concat (map snd gs)) \<longrightarrow>
              (\<forall>j < length (ordered_image_numbers a).
                 new_image_numbers a ! (ordered_image_numbers a ! j) = j + 1)"
    using new_numbers_of_ordering[OF assms(3) _ a] by blast
  show ?thesis using a run perm l1 l2 srt nin by blast
qed

theorem ordering_is_permutation_witness:
  "get_groupings example_groups example_workspace =
     Some ([''Metadata_row''], [([''B''], [2]), ([''A''], [1, 3])]) \<and>
   \<not> in_batch_mode example_workspace \<and>
   (\<exists>a. prepare_run_arrays [([''B''], [2]), ([''A''], [1, 3])] = Inr a \<and>
        fst (prepare_run example_groups example_workspace) = Inr True \<and>
        mset (ordered_image_numbers a) = mset [2, 1, 3] \<and>
        mset (ordered_image_numbers a) = mset (map image_number example_records) \<and>
        sorted (zip (group_numbers a) (group_indexes a)))"
proof -
  have b: "\<not> in_batch_mode example_workspace" by (simp add: example_workspace_def)
  have c: "concat (map snd [([''B''], [2::nat]), ([''A''], [1, 3])]) \<noteq> []" by simp
  from ordering_is_permutation[OF example_get_groupings b c]
  obtain a where a: "prepare_run_arrays [([''B''], [2]), ([''A''], [1, 3])] = Inr a"
    "fst (prepare_run example_groups example_workspace) = Inr True"
    "mset (ordered_image_numbers a) = mset (concat (map snd [([''B''], [2::nat]), ([''A''], [1, 3])]))"
    "sorted (zip (group_numbers a) (group_indexes a))"
    by auto
  have "mset (concat (map snd [([''B''], [2::nat]), ([''A''], [1, 3])])) =
      mset (map image_number example_records)"
    using records_groupings_image_numbers[of example_records "[''Metadata_row'']"]
    unfolding example_groupings .
  then have "mset (ordered_image_numbers a) = mset (map image_number example_records)"
    using a(3) by simp
  then show ?thesis using a example_get_groupings b by auto
qed

text \<open>
  C2. Let the measurements report one grouping per GroupKey, each with at least one image
  set, and every image number once. Then the group numbers used are exactly 1 to G, where
  G is the number of distinct GroupKeys; the group number \<open>n\<close> of an image set is the
  position of its GroupKey in the sorted list of the GroupKeys; and two image sets have the
  same group number exactly when their GroupKeys are equal. The keys are sorted by the
  order of their type: for the GroupKey tuples of the spec (\<open>string list\<close>) this is the
  lexicographic order, strings being compared element by element in turn.
\<close>

theorem group_numbers_by_sorted_keys:
  assumes "distinct (map fst gs)" and "\<forall>g \<in> set gs. snd g \<noteq> []"
    and "distinct (concat (map snd gs))" and "gs \<noteq> []"
  shows "\<exists>a. prepare_run_arrays gs = Inr a \<and>
           set (group_numbers a) = {1..card (set (map fst gs))} \<and>
           (\<forall>(k, ims) \<in> set gs. \<forall>i \<in> set ims.
              \<exists>n. map_of (zip (ordered_image_numbers a) (group_numbers a)) i = Some n \<and>
                  1 \<le> n \<and> n \<le> card (set (map fst gs)) \<and> sort (map fst gs) ! (n - 1) = k) \<and>
           (\<forall>(k1, ims1) \<in> set gs. \<forall>(k2, ims2) \<in> set gs. \<forall>i1 \<in> set ims1. \<forall>i2 \<in> set ims2.
              (map_of (zip (ordered_image_numbers a) (group_numbers a)) i1 =
               map_of (zip (ordered_image_numbers a) (group_numbers a)) i2) = (k1 = k2))"
proof -
  let ?rows = "group_rows 0 (sort gs)"
  have ne: "concat (map snd gs) \<noteq> []"
    using assms(2,4) by (cases gs) auto
  obtain a where a: "prepare_run_arrays gs = Inr a"
    and o: "ordered_image_numbers a = concat (map snd (sort gs))"
    and o': "ordered_image_numbers a = map fst ?rows"
    and gn: "group_numbers a = map (\<lambda>r. fst (snd r)) ?rows"
    by (rule prepare_run_arrays_success[OF ne])
  let ?Z = "zip (ordered_image_numbers a) (group_numbers a)"
  have G: "card (set (map fst gs)) = length gs"
    using distinct_card[OF assms(1)] by simp
  have dense: "set (group_numbers a) = {1..card (set (map fst gs))}"
  proof -
    have "\<forall>g \<in> set (sort gs). snd g \<noteq> []" using assms(2) by simp
    from rows_group_numbers_set[OF this, of 0] show ?thesis
      unfolding gn G by simp
  qed
  have Z: "?Z = map (\<lambda>r. (fst r, fst (snd r))) ?rows"
    unfolding o' gn by (rule zip_rows_numbers)
  have dZ: "distinct (map fst ?Z)"
  proof -
    have "length (group_numbers a) = length (ordered_image_numbers a)" by (simp add: o' gn)
    then have "map fst ?Z = ordered_image_numbers a" by simp
    moreover have "distinct (ordered_image_numbers a)"
      using assms(3) mset_concat_sort[of gs] unfolding o by (metis mset_eq_imp_distinct_iff)
    ultimately show ?thesis by simp
  qed
  have key: "\<exists>n. map_of ?Z i = Some n \<and> 1 \<le> n \<and> n \<le> card (set (map fst gs)) \<and>
      sort (map fst gs) ! (n - 1) = k"
    if mem: "(k, ims) \<in> set gs" and elt: "i \<in> set ims" for k ims i
  proof -
    obtain p where p: "p < length gs" "sort gs ! p = (k, ims)" "sort (map fst gs) ! p = k"
      using in_sorted_groupings[OF mem assms(1)] by blast
    obtain j where j: "j < length ims" "ims ! j = i"
      using elt by (auto simp: in_set_conv_nth)
    have "(snd (sort gs ! p) ! j, 0 + p + 1, j + 1) \<in> set ?rows"
      by (rule rows_member) (use p j in simp_all)
    then have "(i, Suc p, Suc j) \<in> set ?rows" using p j by simp
    then have "(i, Suc p) \<in> set ?Z" unfolding Z by force
    then have "map_of ?Z i = Some (Suc p)" using dZ by simp
    then show ?thesis using p G by auto
  qed
  have inj: "(map_of ?Z i1 = map_of ?Z i2) = (k1 = k2)"
    if m1: "(k1, ims1) \<in> set gs" and m2: "(k2, ims2) \<in> set gs"
      and e1: "i1 \<in> set ims1" and e2: "i2 \<in> set ims2"
    for k1 ims1 k2 ims2 i1 i2
  proof -
    obtain n1 where n1: "map_of ?Z i1 = Some n1" "1 \<le> n1" "n1 \<le> card (set (map fst gs))"
      "sort (map fst gs) ! (n1 - 1) = k1"
      using key[OF m1 e1] by blast
    obtain n2 where n2: "map_of ?Z i2 = Some n2" "1 \<le> n2" "n2 \<le> card (set (map fst gs))"
      "sort (map fst gs) ! (n2 - 1) = k2"
      using key[OF m2 e2] by blast
    have d: "distinct (sort (map fst gs))" using assms(1) by simp
    have "k1 = k2 \<longleftrightarrow> n1 - 1 = n2 - 1"
      using nth_eq_iff_index_eq[OF d, of "n1 - 1" "n2 - 1"] n1 n2 G by auto
    also have "\<dots> \<longleftrightarrow> n1 = n2" using n1(2) n2(2) by auto
    finally show ?thesis using n1(1) n2(1) by simp
  qed
  show ?thesis
    using a dense key inj by blast
qed

theorem group_numbers_by_sorted_keys_witness:
  "distinct (map fst [([''B''], [2::nat]), ([''A''], [1, 3])]) \<and>
   distinct (concat (map snd [([''B''], [2::nat]), ([''A''], [1, 3])])) \<and>
   sort (map fst [([''B''], [2::nat]), ([''A''], [1, 3])]) = [[''A''], [''B'']] \<and>
   (\<exists>a n. prepare_run_arrays [([''B''], [2]), ([''A''], [1, 3])] = Inr a \<and>
        set (group_numbers a) = {1..2} \<and>
        map_of (zip (ordered_image_numbers a) (group_numbers a)) 2 = Some n \<and>
        [[''A''], [''B'']] ! (n - 1) = [''B''])"
proof -
  let ?gs = "[([''B''], [2::nat]), ([''A''], [1, 3])]"
  have h1: "distinct (map fst ?gs)" by simp
  have h2: "\<forall>g \<in> set ?gs. snd g \<noteq> []" by simp
  have h3: "distinct (concat (map snd ?gs))" by simp
  have h4: "?gs \<noteq> []" by simp
  have srt: "sort (map fst ?gs) = [[''A''], [''B'']]" by code_simp
  have crd: "card (set (map fst ?gs)) = 2" by simp
  from group_numbers_by_sorted_keys[OF h1 h2 h3 h4]
  obtain a where a: "prepare_run_arrays ?gs = Inr a"
    and dense: "set (group_numbers a) = {1..card (set (map fst ?gs))}"
    and key: "\<forall>(k, ims) \<in> set ?gs. \<forall>i \<in> set ims.
              \<exists>n. map_of (zip (ordered_image_numbers a) (group_numbers a)) i = Some n \<and>
                  1 \<le> n \<and> n \<le> card (set (map fst ?gs)) \<and> sort (map fst ?gs) ! (n - 1) = k"
    by blast
  have "([''B''], [2::nat]) \<in> set ?gs" by simp
  with key have "\<forall>i \<in> set [2::nat].
              \<exists>n. map_of (zip (ordered_image_numbers a) (group_numbers a)) i = Some n \<and>
                  1 \<le> n \<and> n \<le> card (set (map fst ?gs)) \<and> sort (map fst ?gs) ! (n - 1) = [''B'']"
    by blast
  then obtain n where "map_of (zip (ordered_image_numbers a) (group_numbers a)) 2 = Some n"
    "sort (map fst ?gs) ! (n - 1) = [''B'']"
    by auto
  then show ?thesis using a dense h1 h3 unfolding srt crd by blast
qed

text \<open>
  C3. For every group, the rows that carry its group number list the members of the group
  in the order in which the measurements delivered them (arrival order), with the group
  indexes 1, 2, ..., count. For the records (1, row A), (2, row B), (3, row A) grouped by
  \<open>row\<close>: row A is group 1 with image set 1 at index 1 and image set 3 at index 2, row B
  is group 2 with image set 2 at index 1, and the ordering is 1, 3, 2.
\<close>

theorem group_indexes_in_arrival_order:
  assumes "distinct (map fst gs)" and "concat (map snd gs) \<noteq> []"
  shows "(\<exists>a. prepare_run_arrays gs = Inr a \<and>
            length (group_numbers a) = length (ordered_image_numbers a) \<and>
            length (group_indexes a) = length (ordered_image_numbers a) \<and>
            (\<forall>(k, ims) \<in> set gs.
               \<exists>n. 1 \<le> n \<and> n \<le> length gs \<and> sort (map fst gs) ! (n - 1) = k \<and>
                   map (\<lambda>(i, g, x). (i, x))
                     (filter (\<lambda>(i, g, x). g = n)
                        (zip (ordered_image_numbers a) (zip (group_numbers a) (group_indexes a)))) =
                   zip ims (map Suc [0..<length ims]))) \<and>
         records_get_groupings example_records [''Metadata_row''] =
           [([''B''], [2]), ([''A''], [1, 3])] \<and>
         prepare_run_arrays (records_get_groupings example_records [''Metadata_row'']) =
           Inr \<lparr> ordered_image_numbers = [1, 3, 2], group_numbers = [1, 1, 2], group_indexes = [1, 2, 1],
                 new_image_numbers = [0, 1, 3, 2] \<rparr> \<and>
         prepare_run example_groups example_workspace =
           (Inr True,
            [Reorder_image_measurements [0, 1, 3, 2],
             Add_all_measurements IMAGE GROUP_NUMBER [1, 1, 2],
             Add_all_measurements IMAGE GROUP_INDEX [1, 2, 1],
             Set_grouping_tags (Some [''Metadata_row''])])"
proof -
  let ?rows = "group_rows 0 (sort gs)"
  obtain a where a: "prepare_run_arrays gs = Inr a"
    and o': "ordered_image_numbers a = map fst ?rows"
    and gn: "group_numbers a = map (\<lambda>r. fst (snd r)) ?rows"
    and gi: "group_indexes a = map (\<lambda>r. snd (snd r)) ?rows"
    by (rule prepare_run_arrays_success[OF assms(2)])
  have rows: "zip (ordered_image_numbers a) (zip (group_numbers a) (group_indexes a)) = ?rows"
    unfolding o' gn gi by (rule zip_rows)
  have l1: "length (group_numbers a) = length (ordered_image_numbers a)"
    and l2: "length (group_indexes a) = length (ordered_image_numbers a)"
    by (simp_all add: o' gn gi)
  have members: "\<exists>n. 1 \<le> n \<and> n \<le> length gs \<and> sort (map fst gs) ! (n - 1) = k \<and>
                   map (\<lambda>(i, g, x). (i, x))
                     (filter (\<lambda>(i, g, x). g = n)
                        (zip (ordered_image_numbers a) (zip (group_numbers a) (group_indexes a)))) =
                   zip ims (map Suc [0..<length ims])"
    if mem: "(k, ims) \<in> set gs" for k ims
  proof -
    obtain p where p: "p < length gs" "sort gs ! p = (k, ims)" "sort (map fst gs) ! p = k"
      using in_sorted_groupings[OF mem assms(1)] by blast
    have "map (\<lambda>(i, g, x). (i, x)) (filter (\<lambda>(i, g, x). g = 0 + p + 1) ?rows) =
        zip (snd (sort gs ! p)) (map Suc [0..<length (snd (sort gs ! p))])"
      by (rule rows_filter_group) (use p in simp)
    then have "map (\<lambda>(i, g, x). (i, x)) (filter (\<lambda>(i, g, x). g = Suc p) ?rows) =
        zip ims (map Suc [0..<length ims])"
      using p by simp
    then show ?thesis using p unfolding rows
      by (intro exI[of _ "Suc p"]) simp
  qed
  have general: "\<exists>a. prepare_run_arrays gs = Inr a \<and>
            length (group_numbers a) = length (ordered_image_numbers a) \<and>
            length (group_indexes a) = length (ordered_image_numbers a) \<and>
            (\<forall>(k, ims) \<in> set gs.
               \<exists>n. 1 \<le> n \<and> n \<le> length gs \<and> sort (map fst gs) ! (n - 1) = k \<and>
                   map (\<lambda>(i, g, x). (i, x))
                     (filter (\<lambda>(i, g, x). g = n)
                        (zip (ordered_image_numbers a) (zip (group_numbers a) (group_indexes a)))) =
                   zip ims (map Suc [0..<length ims]))"
    using a l1 l2 members by blast
  show ?thesis
    using general example_groupings example_arrays example_run
    by (simp only: simp_thms)
qed

theorem group_indexes_in_arrival_order_witness:
  "distinct (map fst [([''B''], [2::nat]), ([''A''], [1, 3])]) \<and>
   (\<exists>a n. prepare_run_arrays [([''B''], [2]), ([''A''], [1, 3])] = Inr a \<and>
        sort (map fst [([''B''], [2::nat]), ([''A''], [1, 3])]) ! (n - 1) = [''A''] \<and>
        map (\<lambda>(i, g, x). (i, x))
          (filter (\<lambda>(i, g, x). g = n)
             (zip (ordered_image_numbers a) (zip (group_numbers a) (group_indexes a)))) = [(1, 1), (3, 2)])"
proof -
  let ?gs = "[([''B''], [2::nat]), ([''A''], [1, 3])]"
  have h1: "distinct (map fst ?gs)" by simp
  have h2: "concat (map snd ?gs) \<noteq> []" by simp
  have z: "zip [1, 3::nat] (map Suc [0..<length [1, 3::nat]]) = [(1, 1), (3, 2)]" by code_simp
  from group_indexes_in_arrival_order[OF h1 h2]
  obtain a where a: "prepare_run_arrays ?gs = Inr a"
    and members: "\<forall>(k, ims) \<in> set ?gs.
               \<exists>n. 1 \<le> n \<and> n \<le> length ?gs \<and> sort (map fst ?gs) ! (n - 1) = k \<and>
                   map (\<lambda>(i, g, x). (i, x))
                     (filter (\<lambda>(i, g, x). g = n)
                        (zip (ordered_image_numbers a) (zip (group_numbers a) (group_indexes a)))) =
                   zip ims (map Suc [0..<length ims])"
    by blast
  have "([''A''], [1, 3::nat]) \<in> set ?gs" by simp
  with members obtain n where f1: "sort (map fst ?gs) ! (n - 1) = [''A'']"
    and f2: "map (\<lambda>(i, g, x). (i, x))
                     (filter (\<lambda>(i, g, x). g = n)
                        (zip (ordered_image_numbers a) (zip (group_numbers a) (group_indexes a)))) =
                   zip [1, 3::nat] (map Suc [0..<length [1, 3::nat]])"
    by blast
  note f3 = f2[unfolded z]
  show ?thesis
    by (intro conjI exI[of _ a] exI[of _ n]) (fact h1 a f1 f3)+
qed

text \<open>
  C4, as amended. When grouping is on, outside batch mode, and a configured grouping key is
  not a feature name of the image measurements, \<^verbatim>\<open>prepare_run\<close> returns
  \<open>False\<close>: nothing is raised, no group number is computed and no call is made on the
  measurements.
\<close>

theorem prepare_run_missing_key:
  assumes "wants_groups self" and "\<not> in_batch_mode ws"
    and "get_grouping_tags self = Some key_list"
    and "key \<in> set key_list" and "key \<notin> set (get_feature_names (ws_measurements ws))"
  shows "prepare_run self ws = (Inr False, [])"
proof -
  have "list_ex (\<lambda>key. key \<notin> set (get_feature_names (ws_measurements ws))) key_list"
    using assms(4,5) by (auto simp: list_ex_iff)
  then have "get_groupings self ws = None"
    using assms(1,3) by (simp add: get_groupings_def)
  then show ?thesis using assms(1,2) by (simp add: prepare_run_def)
qed

theorem prepare_run_missing_key_witness:
  "wants_groups plate_groups \<and> \<not> in_batch_mode example_workspace \<and>
   get_grouping_tags plate_groups = Some [''Metadata_plate''] \<and>
   ''Metadata_plate'' \<notin> set (get_feature_names (ws_measurements example_workspace)) \<and>
   prepare_run plate_groups example_workspace = (Inr False, [])"
proof -
  have a: "wants_groups plate_groups" by (simp add: plate_groups_def)
  have b: "\<not> in_batch_mode example_workspace" by (simp add: example_workspace_def)
  have c: "get_grouping_tags plate_groups = Some [''Metadata_plate'']"
    by (simp add: get_grouping_tags_def plate_groups_def C_METADATA_def)
  have d: "''Metadata_plate'' \<in> set [''Metadata_plate'']" by simp
  have e: "''Metadata_plate'' \<notin> set (get_feature_names (ws_measurements example_workspace))"
    by (simp add: example_workspace_def example_measurements_def)
  show ?thesis using prepare_run_missing_key[OF a b c d e] a b c e by blast
qed

text \<open>
  C4 as stated fails: with the key \<open>plate\<close> configured and only \<open>Metadata_row\<close> among
  the feature names, \<^verbatim>\<open>prepare_run\<close> returns the value \<open>False\<close>; it raises no
  error.
\<close>

theorem prepare_run_missing_key_counterexample:
  "prepare_run plate_groups example_workspace = (Inr False, [])"
  by (rule plate_run)

text \<open>
  C5, as amended. When grouping is on, outside batch mode, and the measurements report no
  group (there is no image set), \<^verbatim>\<open>prepare_run\<close> makes no call on the measurements
  and does not succeed: it returns \<open>False\<close> when a configured key is not a feature name,
  and otherwise numpy raises \<open>ValueError\<close> in \<^verbatim>\<open>np.hstack\<close> of an empty list.
\<close>

theorem prepare_run_no_groups:
  assumes "wants_groups self" and "\<not> in_batch_mode ws"
    and "get_grouping_tags self = Some key_list"
    and "m_get_groupings (ws_measurements ws) key_list = []"
  shows "prepare_run self ws =
           (if list_all (\<lambda>key. key \<in> set (get_feature_names (ws_measurements ws))) key_list
            then (Inl ValueError, []) else (Inr False, []))"
proof (cases "list_all (\<lambda>key. key \<in> set (get_feature_names (ws_measurements ws))) key_list")
  case True
  then have "get_groupings self ws = Some (key_list, [])"
    using assms by (simp add: get_groupings_Some)
  then show ?thesis using assms(1,2) True
    by (simp add: prepare_run_def prepare_run_arrays_no_images)
next
  case False
  then have "get_groupings self ws = None"
    using assms(1,3) by (auto simp: get_groupings_def list_ex_iff list_all_iff)
  then show ?thesis using assms(1,2) False by (simp add: prepare_run_def)
qed

theorem prepare_run_no_groups_witness:
  "wants_groups example_groups \<and>
   get_grouping_tags example_groups = Some [''Metadata_row''] \<and>
   m_get_groupings (ws_measurements (empty_workspace [''Metadata_row''])) [''Metadata_row''] = [] \<and>
   prepare_run example_groups (empty_workspace [''Metadata_row'']) = (Inl ValueError, []) \<and>
   m_get_groupings (ws_measurements (empty_workspace [])) [''Metadata_row''] = [] \<and>
   prepare_run example_groups (empty_workspace []) = (Inr False, [])"
proof -
  have a: "wants_groups example_groups" by (simp add: example_groups_def)
  have b: "\<not> in_batch_mode (empty_workspace fs)" for fs by (simp add: empty_workspace_def)
  have c: "get_grouping_tags example_groups = Some [''Metadata_row'']"
    by (simp add: get_grouping_tags_def example_groups_def C_METADATA_def)
  have d: "m_get_groupings (ws_measurements (empty_workspace fs)) [''Metadata_row''] = []" for fs
    by (simp add: empty_workspace_def records_get_groupings_def)
  have e1: "list_all (\<lambda>key. key \<in> set (get_feature_names (ws_measurements (empty_workspace [''Metadata_row'']))))
      [''Metadata_row'']"
    by (simp add: empty_workspace_def)
  have e2: "\<not> list_all (\<lambda>key. key \<in> set (get_feature_names (ws_measurements (empty_workspace []))))
      [''Metadata_row'']"
    by (simp add: empty_workspace_def)
  have r1: "prepare_run example_groups (empty_workspace [''Metadata_row'']) = (Inl ValueError, [])"
    using prepare_run_no_groups[OF a b c d, of "[''Metadata_row'']"] e1 by simp
  have r2: "prepare_run example_groups (empty_workspace []) = (Inr False, [])"
    using prepare_run_no_groups[OF a b c d, of "[]"] e2 by simp
  show ?thesis using a c d r1 r2 by blast
qed

text \<open>
  C5 as stated fails: with no image set and no feature name, \<^verbatim>\<open>prepare_run\<close>
  returns the value \<open>False\<close> and raises nothing.
\<close>

theorem prepare_run_no_groups_counterexample:
  "prepare_run example_groups (empty_workspace []) = (Inr False, [])"
  by (simp add: prepare_run_def get_groupings_def get_grouping_tags_def C_METADATA_def
      example_groups_def empty_workspace_def)

text \<open>
  C6, as amended. \<^verbatim>\<open>prepare_run\<close> is a function of the settings of the module and
  of what it reads from the workspace: the batch mode flag, the feature names and the
  groupings for the configured keys; two workspaces that agree on these give the same
  result. In batch mode or with grouping off it returns \<open>True\<close> and makes no
  call on the measurements; whenever it does not return \<open>True\<close> it makes no call either.
  When it partitions, it writes to the measurements itself: it reorders them with
  \<^verbatim>\<open>reorder_image_measurements\<close>, stores the group numbers and the group indexes
  with \<^verbatim>\<open>add_all_measurements\<close>, and sets the grouping tags.
\<close>

theorem prepare_run_calls:
  "(in_batch_mode ws' = in_batch_mode ws \<and>
    get_feature_names (ws_measurements ws') = get_feature_names (ws_measurements ws) \<and>
    (\<forall>key_list. get_grouping_tags self = Some key_list \<longrightarrow>
       m_get_groupings (ws_measurements ws') key_list =
       m_get_groupings (ws_measurements ws) key_list) \<longrightarrow>
    prepare_run self ws' = prepare_run self ws) \<and>
   (in_batch_mode ws \<or> \<not> wants_groups self \<longrightarrow> prepare_run self ws = (Inr True, [])) \<and>
   (fst (prepare_run self ws) \<noteq> Inr True \<longrightarrow> snd (prepare_run self ws) = []) \<and>
   (\<not> in_batch_mode ws \<and> wants_groups self \<and> fst (prepare_run self ws) = Inr True \<longrightarrow>
      (\<exists>key_list gs a.
         get_groupings self ws = Some (key_list, gs) \<and> prepare_run_arrays gs = Inr a \<and>
         snd (prepare_run self ws) =
           [Reorder_image_measurements (new_image_numbers a),
            Add_all_measurements IMAGE GROUP_NUMBER (group_numbers a),
            Add_all_measurements IMAGE GROUP_INDEX (group_indexes a),
            Set_grouping_tags (Some key_list)]))"
proof -
  have same: "prepare_run self ws' = prepare_run self ws"
    if "in_batch_mode ws' = in_batch_mode ws"
      and "get_feature_names (ws_measurements ws') = get_feature_names (ws_measurements ws)"
      and "\<forall>key_list. get_grouping_tags self = Some key_list \<longrightarrow>
         m_get_groupings (ws_measurements ws') key_list =
         m_get_groupings (ws_measurements ws) key_list"
  proof -
    have "get_groupings self ws' = get_groupings self ws"
      using that(2,3) by (auto simp: get_groupings_def Let_def split: option.splits)
    then show ?thesis using that(1) by (simp add: prepare_run_def)
  qed
  have rest: "(in_batch_mode ws \<or> \<not> wants_groups self \<longrightarrow> prepare_run self ws = (Inr True, [])) \<and>
   (fst (prepare_run self ws) \<noteq> Inr True \<longrightarrow> snd (prepare_run self ws) = []) \<and>
   (\<not> in_batch_mode ws \<and> wants_groups self \<and> fst (prepare_run self ws) = Inr True \<longrightarrow>
      (\<exists>key_list gs a.
         get_groupings self ws = Some (key_list, gs) \<and> prepare_run_arrays gs = Inr a \<and>
         snd (prepare_run self ws) =
           [Reorder_image_measurements (new_image_numbers a),
            Add_all_measurements IMAGE GROUP_NUMBER (group_numbers a),
            Add_all_measurements IMAGE GROUP_INDEX (group_indexes a),
            Set_grouping_tags (Some key_list)]))"
    by (auto simp: prepare_run_def get_groupings_Some split: option.splits sum.splits)
  show ?thesis using same rest by blast
qed

theorem prepare_run_calls_witness:
  "\<not> in_batch_mode example_workspace \<and> wants_groups example_groups \<and>
   fst (prepare_run example_groups example_workspace) = Inr True \<and>
   (\<exists>key_list gs a.
      get_groupings example_groups example_workspace = Some (key_list, gs) \<and>
      prepare_run_arrays gs = Inr a \<and>
      snd (prepare_run example_groups example_workspace) =
        [Reorder_image_measurements (new_image_numbers a),
         Add_all_measurements IMAGE GROUP_NUMBER (group_numbers a),
         Add_all_measurements IMAGE GROUP_INDEX (group_indexes a),
         Set_grouping_tags (Some key_list)])"
proof -
  have b: "\<not> in_batch_mode example_workspace" by (simp add: example_workspace_def)
  have w: "wants_groups example_groups" by (simp add: example_groups_def)
  have r: "fst (prepare_run example_groups example_workspace) = Inr True"
    by (simp add: example_run)
  show ?thesis
    using prepare_run_calls[of example_workspace example_workspace example_groups] b w r by blast
qed

text \<open>
  C6 as stated fails: on the example image sets \<^verbatim>\<open>prepare_run\<close> reorders the
  measurements and stores the group numbers and indexes.
\<close>

theorem prepare_run_calls_counterexample:
  "snd (prepare_run example_groups example_workspace) =
     [Reorder_image_measurements [0, 1, 3, 2],
      Add_all_measurements IMAGE GROUP_NUMBER [1, 1, 2],
      Add_all_measurements IMAGE GROUP_INDEX [1, 2, 1],
      Set_grouping_tags (Some [''Metadata_row''])]"
  by (simp add: example_run)

text \<open>
  C7. Let the measurements report one grouping per GroupKey and every image number once,
  and let a first run succeed. After \<^verbatim>\<open>reorder_image_measurements\<close> the groupings
  carry the new image numbers. A second run on them succeeds; its ordering is 1, 2, ..., N
  and its \<^verbatim>\<open>new_image_numbers\<close> maps every image number to itself (the identity
  permutation); the group numbers and group indexes are those of the first run.
\<close>

theorem rerun_is_identity:
  assumes "distinct (map fst gs)" and "distinct (concat (map snd gs))"
    and "prepare_run_arrays gs = Inr a"
  shows "\<exists>a'. prepare_run_arrays (reordered_groupings (new_image_numbers a) gs) = Inr a' \<and>
           ordered_image_numbers a' = map Suc [0..<length (ordered_image_numbers a)] \<and>
           new_image_numbers a' = 0 # map Suc [0..<length (ordered_image_numbers a)] \<and>
           group_numbers a' = group_numbers a \<and>
           group_indexes a' = group_indexes a"
proof -
  let ?f = "new_image_numbers a"
  let ?gs' = "reordered_groupings ?f gs"
  let ?N = "length (ordered_image_numbers a)"
  have ne: "concat (map snd gs) \<noteq> []"
    using assms(3) prepare_run_arrays_no_images[of gs] by auto
  obtain a0 where a0: "prepare_run_arrays gs = Inr a0"
    and o0: "ordered_image_numbers a0 = concat (map snd (sort gs))"
    and gn0: "group_numbers a0 = map (\<lambda>r. fst (snd r)) (group_rows 0 (sort gs))"
    and gi0: "group_indexes a0 = map (\<lambda>r. snd (snd r)) (group_rows 0 (sort gs))"
    and len0: "length (ordered_image_numbers a0) = length (concat (map snd gs))"
    by (rule prepare_run_arrays_success[OF ne])
  have aa: "a0 = a" using a0 assms(3) by simp
  note o = o0[unfolded aa] and gn = gn0[unfolded aa] and gi = gi0[unfolded aa]
    and len = len0[unfolded aa]
  have pos: "0 < ?N" using ne len by simp
  have srt: "sort ?gs' = reordered_groupings ?f (sort gs)"
    by (rule sort_reordered[OF assms(1)])
  have renum: "map (\<lambda>i. ?f ! i) (ordered_image_numbers a) = map Suc [0..<?N]"
  proof (rule nth_equalityI)
    show "length (map (\<lambda>i. ?f ! i) (ordered_image_numbers a)) = length (map Suc [0..<?N])" by simp
  next
    fix j assume "j < length (map (\<lambda>i. ?f ! i) (ordered_image_numbers a))"
    then have j: "j < ?N" by simp
    show "map (\<lambda>i. ?f ! i) (ordered_image_numbers a) ! j = map Suc [0..<?N] ! j"
      using new_numbers_of_ordering[OF ne assms(2,3) j] j by simp
  qed
  have ord': "concat (map snd (sort ?gs')) = map Suc [0..<?N]"
    unfolding srt concat_reordered using renum o by simp
  have ne': "concat (map snd ?gs') \<noteq> []"
    using ne by (simp add: concat_reordered)
  obtain a' where a': "prepare_run_arrays ?gs' = Inr a'"
    and o': "ordered_image_numbers a' = concat (map snd (sort ?gs'))"
    and gn': "group_numbers a' = map (\<lambda>r. fst (snd r)) (group_rows 0 (sort ?gs'))"
    and gi': "group_indexes a' = map (\<lambda>r. snd (snd r)) (group_rows 0 (sort ?gs'))"
    and n': "new_image_numbers a' =
           put_indices (replicate (Max (set (concat (map snd ?gs'))) + 1) 0) (ordered_image_numbers a')
             (map Suc [0..<length (ordered_image_numbers a')])"
    by (rule prepare_run_arrays_success[OF ne'])
  have o1: "ordered_image_numbers a' = map Suc [0..<?N]" using o' ord' by simp
  have "set (concat (map snd ?gs')) = set (concat (map snd (sort ?gs')))"
    using mset_concat_sort[of ?gs'] by (metis mset_eq_setD)
  then have mx: "Max (set (concat (map snd ?gs'))) = ?N"
    unfolding ord' using Max_Suc_upt[OF pos] by simp
  have n1: "new_image_numbers a' = 0 # map Suc [0..<?N]"
    unfolding n' mx o1 using put_identity[of ?N] by simp
  have rs: "map snd (group_rows 0 (sort ?gs')) = map snd (group_rows 0 (sort gs))"
    unfolding srt by (rule rows_reordered)
  have gn1: "group_numbers a' = group_numbers a"
  proof -
    have "group_numbers a' = map fst (map snd (group_rows 0 (sort ?gs')))"
      unfolding gn' by simp
    also have "\<dots> = map fst (map snd (group_rows 0 (sort gs)))" unfolding rs ..
    also have "\<dots> = group_numbers a" unfolding gn by simp
    finally show ?thesis .
  qed
  have gi1: "group_indexes a' = group_indexes a"
  proof -
    have "group_indexes a' = map snd (map snd (group_rows 0 (sort ?gs')))"
      unfolding gi' by simp
    also have "\<dots> = map snd (map snd (group_rows 0 (sort gs)))" unfolding rs ..
    also have "\<dots> = group_indexes a" unfolding gi by simp
    finally show ?thesis .
  qed
  show ?thesis using a' o1 n1 gn1 gi1 by blast
qed

theorem rerun_is_identity_witness:
  "distinct (map fst [([''B''], [2::nat]), ([''A''], [1, 3])]) \<and>
   distinct (concat (map snd [([''B''], [2::nat]), ([''A''], [1, 3])])) \<and>
   prepare_run_arrays [([''B''], [2]), ([''A''], [1, 3])] =
     Inr \<lparr> ordered_image_numbers = [1, 3, 2], group_numbers = [1, 1, 2], group_indexes = [1, 2, 1],
           new_image_numbers = [0, 1, 3, 2] \<rparr> \<and>
   reordered_groupings [0, 1, 3, 2] [([''B''], [2]), ([''A''], [1, 3])] =
     [([''B''], [3]), ([''A''], [1, 2])] \<and>
   (\<exists>a'. prepare_run_arrays [([''B''], [3]), ([''A''], [1, 2])] = Inr a' \<and>
        ordered_image_numbers a' = [1, 2, 3] \<and> new_image_numbers a' = [0, 1, 2, 3] \<and>
        group_numbers a' = [1, 1, 2] \<and> group_indexes a' = [1, 2, 1])"
proof -
  let ?gs = "[([''B''], [2::nat]), ([''A''], [1, 3])]"
  let ?a = "\<lparr> ordered_image_numbers = [1, 3, 2], group_numbers = [1, 1, 2], group_indexes = [1, 2, 1],
           new_image_numbers = [0, 1, 3, 2::nat] \<rparr>"
  have h1: "distinct (map fst ?gs)" by simp
  have h2: "distinct (concat (map snd ?gs))" by simp
  have re: "reordered_groupings [0, 1, 3, 2] ?gs = [([''B''], [3]), ([''A''], [1, 2])]"
    by code_simp
  have u: "map Suc [0..<length [1, 3, 2::nat]] = [1, 2, 3]" by code_simp
  from rerun_is_identity[OF h1 h2 example_arrays]
  obtain a' where "prepare_run_arrays (reordered_groupings (new_image_numbers ?a) ?gs) = Inr a'"
    "ordered_image_numbers a' = map Suc [0..<length (ordered_image_numbers ?a)]"
    "new_image_numbers a' = 0 # map Suc [0..<length (ordered_image_numbers ?a)]"
    "group_numbers a' = group_numbers ?a" "group_indexes a' = group_indexes ?a"
    by blast
  then have "prepare_run_arrays [([''B''], [3]), ([''A''], [1, 2])] = Inr a'"
    "ordered_image_numbers a' = [1, 2, 3]" "new_image_numbers a' = [0, 1, 2, 3]"
    "group_numbers a' = [1, 1, 2]" "group_indexes a' = [1, 2, 1]"
    using re u by simp_all
  then show ?thesis using h1 h2 example_arrays re by blast
qed

text \<open>
  C8. With no grouping key, the measurements report one group that holds all image
  numbers (in the record model of the spec its key is the empty tuple). Then every image set gets group number 1, the group indexes are
  1, 2, ..., N in the original order, and the ordering is the original sequence of image
  numbers; when these are 1, 2, ..., N, \<^verbatim>\<open>new_image_numbers\<close> maps each to itself.
\<close>

theorem no_keys_single_group:
  assumes "wants_groups self" and "\<not> in_batch_mode ws"
    and "grouping_metadata self = []"
    and "m_get_groupings (ws_measurements ws) [] = [(k, image_numbers)]"
    and "image_numbers \<noteq> []"
  shows "\<exists>a. prepare_run_arrays [(k, image_numbers)] = Inr a \<and>
           ordered_image_numbers a = image_numbers \<and>
           group_numbers a = replicate (length image_numbers) 1 \<and>
           group_indexes a = map Suc [0..<length image_numbers] \<and>
           prepare_run self ws =
             (Inr True,
              [Reorder_image_measurements (new_image_numbers a),
               Add_all_measurements IMAGE GROUP_NUMBER (replicate (length image_numbers) 1),
               Add_all_measurements IMAGE GROUP_INDEX (map Suc [0..<length image_numbers]),
               Set_grouping_tags (Some [])]) \<and>
           (image_numbers = map Suc [0..<length image_numbers] \<longrightarrow>
              new_image_numbers a = 0 # map Suc [0..<length image_numbers])"
proof -
  let ?gs = "[(k, image_numbers)]"
  have ne: "concat (map snd ?gs) \<noteq> []" using assms(5) by simp
  obtain a where a: "prepare_run_arrays ?gs = Inr a"
    and o: "ordered_image_numbers a = concat (map snd (sort ?gs))"
    and gn: "group_numbers a = map (\<lambda>r. fst (snd r)) (group_rows 0 (sort ?gs))"
    and gi: "group_indexes a = map (\<lambda>r. snd (snd r)) (group_rows 0 (sort ?gs))"
    and n: "new_image_numbers a =
           put_indices (replicate (Max (set (concat (map snd ?gs))) + 1) 0) (ordered_image_numbers a)
             (map Suc [0..<length (ordered_image_numbers a)])"
    by (rule prepare_run_arrays_success[OF ne])
  have o1: "ordered_image_numbers a = image_numbers" using o by simp
  have gn1: "group_numbers a = replicate (length image_numbers) 1"
    using gn block_group_numbers[of 0 image_numbers] by (simp del: map_map)
  have gi1: "group_indexes a = map Suc [0..<length image_numbers]"
    using gi block_group_indexes[of 0 image_numbers] by (simp del: map_map)
  have tags: "get_grouping_tags self = Some []"
    using assms(1,3) by (simp add: get_grouping_tags_def)
  have gg: "get_groupings self ws = Some ([], ?gs)"
    using assms(1,4) tags by (simp add: get_groupings_Some)
  have run: "prepare_run self ws =
             (Inr True,
              [Reorder_image_measurements (new_image_numbers a),
               Add_all_measurements IMAGE GROUP_NUMBER (replicate (length image_numbers) 1),
               Add_all_measurements IMAGE GROUP_INDEX (map Suc [0..<length image_numbers]),
               Set_grouping_tags (Some [])])"
    using assms(1,2) gg a tags gn1 gi1 by (simp add: prepare_run_def)
  have idn: "image_numbers = map Suc [0..<length image_numbers] \<longrightarrow>
              new_image_numbers a = 0 # map Suc [0..<length image_numbers]"
  proof
    assume eq: "image_numbers = map Suc [0..<length image_numbers]"
    have pos: "0 < length image_numbers" using assms(5) by simp
    have mx: "Max (set image_numbers) = length image_numbers"
      using Max_Suc_upt[OF pos] eq by simp
    have "new_image_numbers a =
        put_indices (replicate (Suc (length image_numbers)) 0) image_numbers image_numbers"
      using n o1 mx eq by simp
    also have "\<dots> = put_indices (replicate (Suc (length image_numbers)) 0)
        (map Suc [0..<length image_numbers]) (map Suc [0..<length image_numbers])"
      using eq by simp
    also have "\<dots> = 0 # map Suc [0..<length image_numbers]" by (rule put_identity)
    finally show "new_image_numbers a = 0 # map Suc [0..<length image_numbers]" .
  qed
  show ?thesis using a o1 gn1 gi1 run idn by blast
qed

theorem no_keys_single_group_witness:
  "wants_groups no_key_groups \<and> \<not> in_batch_mode example_workspace \<and>
   grouping_metadata no_key_groups = [] \<and>
   m_get_groupings (ws_measurements example_workspace) [] = [([], [1, 2, 3])] \<and>
   (\<exists>a. prepare_run_arrays [([] :: string list, [1, 2, 3])] = Inr a \<and>
        ordered_image_numbers a = [1, 2, 3] \<and> group_numbers a = [1, 1, 1] \<and> group_indexes a = [1, 2, 3] \<and>
        new_image_numbers a = [0, 1, 2, 3] \<and>
        prepare_run no_key_groups example_workspace =
          (Inr True,
           [Reorder_image_measurements [0, 1, 2, 3],
            Add_all_measurements IMAGE GROUP_NUMBER [1, 1, 1],
            Add_all_measurements IMAGE GROUP_INDEX [1, 2, 3],
            Set_grouping_tags (Some [])]))"
proof -
  have w: "wants_groups no_key_groups" and g: "grouping_metadata no_key_groups = []"
    by (simp_all add: no_key_groups_def)
  have b: "\<not> in_batch_mode example_workspace" by (simp add: example_workspace_def)
  have ne: "example_records \<noteq> []" by (simp add: example_records_def)
  have m: "m_get_groupings (ws_measurements example_workspace) [] = [([], [1, 2, 3])]"
    using records_get_groupings_no_keys[OF ne]
    by (simp add: example_workspace_def example_measurements_def example_records_def row_record_def)
  have i: "[1, 2, 3::nat] \<noteq> []" by simp
  have u: "map Suc [0..<length [1, 2, 3::nat]] = [1, 2, 3]" by code_simp
  have rp: "replicate (length [1, 2, 3::nat]) (1::nat) = [1, 1, 1]" by code_simp
  from no_keys_single_group[OF w b g m i]
  obtain a where a: "prepare_run_arrays [([] :: string list, [1, 2, 3])] = Inr a"
    "ordered_image_numbers a = [1, 2, 3]"
    "group_numbers a = replicate (length [1, 2, 3::nat]) 1"
    "group_indexes a = map Suc [0..<length [1, 2, 3::nat]]"
    "prepare_run no_key_groups example_workspace =
             (Inr True,
              [Reorder_image_measurements (new_image_numbers a),
               Add_all_measurements IMAGE GROUP_NUMBER (replicate (length [1, 2, 3::nat]) 1),
               Add_all_measurements IMAGE GROUP_INDEX (map Suc [0..<length [1, 2, 3::nat]]),
               Set_grouping_tags (Some [])])"
    "[1, 2, 3] = map Suc [0..<length [1, 2, 3::nat]] \<longrightarrow>
              new_image_numbers a = 0 # map Suc [0..<length [1, 2, 3::nat]]"
    by blast
  then have "new_image_numbers a = [0, 1, 2, 3]" unfolding u by simp
  then show ?thesis using a w b g m unfolding u rp by auto
qed

section \<open>Claims on RescaleIntensity\<close>

text \<open>
  C9. In \<^verbatim>\<open>prepare_group\<close>, when the maximum (the minimum) of all images is asked
  for, the value stored for the group is the maximum (the minimum) over the pixels of the
  images that have no mask: what is computed for an image with a mask is dropped. When
  every image of the group has a mask, the stored value is \<open>None\<close>.
\<close>

theorem prepare_group_unmasked_only:
  assumes "prepare_group self d images = Inr (ret, d')"
  shows "(wants_automatic_high self = HIGH_ALL_IMAGES \<longrightarrow>
            d' HIGH_ALL_IMAGES =
              Some (if unmasked_images images = [] then None
                    else Some (Max (set (unmasked_pixels images))))) \<and>
         (wants_automatic_low self = LOW_ALL_IMAGES \<longrightarrow>
            d' LOW_ALL_IMAGES =
              Some (if unmasked_images images = [] then None
                    else Some (Min (set (unmasked_pixels images))))) \<and>
         (list_all has_mask images \<longrightarrow>
            (wants_automatic_high self = HIGH_ALL_IMAGES \<longrightarrow> d' HIGH_ALL_IMAGES = Some None) \<and>
            (wants_automatic_low self = LOW_ALL_IMAGES \<longrightarrow> d' LOW_ALL_IMAGES = Some None))"
proof -
  have all_masked: "list_all has_mask images \<Longrightarrow> unmasked_images images = []"
    by (simp add: unmasked_images_def list_all_iff)
  show ?thesis
  proof (cases "wants_automatic_high self \<noteq> HIGH_ALL_IMAGES \<and> wants_automatic_low self \<noteq> LOW_ALL_IMAGES")
    case True
    then show ?thesis by simp
  next
    case False
    with assms obtain mn mx where
      loop: "prepare_group_loop self (None, None) images = Inr (mn, mx)" and
      d': "d' = (let d1 = (if wants_automatic_high self = HIGH_ALL_IMAGES
                      then d(HIGH_ALL_IMAGES \<mapsto> mx) else d);
                d2 = (if wants_automatic_low self = LOW_ALL_IMAGES
                      then d1(LOW_ALL_IMAGES \<mapsto> mn) else d1) in d2)"
      by (auto simp: prepare_group_def Let_def split: sum.splits if_splits)
    have hi: "wants_automatic_high self = HIGH_ALL_IMAGES \<Longrightarrow>
        mx = (if unmasked_images images = [] then None else Some (Max (set (unmasked_pixels images))))"
      using loop_high[OF loop] by auto
    have lo: "wants_automatic_low self = LOW_ALL_IMAGES \<Longrightarrow>
        mn = (if unmasked_images images = [] then None else Some (Min (set (unmasked_pixels images))))"
      using loop_low[OF loop] by auto
    have c1: "wants_automatic_high self = HIGH_ALL_IMAGES \<Longrightarrow> d' HIGH_ALL_IMAGES = Some mx"
      using high_low_keys by (simp add: d' Let_def)
    have c2: "wants_automatic_low self = LOW_ALL_IMAGES \<Longrightarrow> d' LOW_ALL_IMAGES = Some mn"
      by (simp add: d' Let_def)
    show ?thesis using hi lo c1 c2 all_masked by simp
  qed
qed

theorem prepare_group_unmasked_only_witness:
  "prepare_group all_images_module Map.empty [masked_bright, unmasked_dim] =
     Inr (None, mixed_dictionary) \<and>
   np_max (masked_pixels masked_bright) = Inr (7/8) \<and>
   mixed_dictionary HIGH_ALL_IMAGES = Some (Some (3/4)) \<and>
   mixed_dictionary LOW_ALL_IMAGES = Some (Some (1/8)) \<and>
   prepare_group all_images_module Map.empty [masked_bright, masked_bright] =
     Inr (None, masked_dictionary) \<and>
   list_all has_mask [masked_bright, masked_bright] \<and>
   masked_dictionary HIGH_ALL_IMAGES = Some None \<and>
   masked_dictionary LOW_ALL_IMAGES = Some None"
proof -
  have hi: "wants_automatic_high all_images_module = HIGH_ALL_IMAGES"
    and lo: "wants_automatic_low all_images_module = LOW_ALL_IMAGES"
    by (simp_all add: all_images_module_def)
  have um: "unmasked_images [masked_bright, unmasked_dim] \<noteq> []"
    by (simp add: unmasked_images_def masked_bright_def unmasked_dim_def)
  have mx: "Max (set (unmasked_pixels [masked_bright, unmasked_dim])) = 3/4"
    and mn: "Min (set (unmasked_pixels [masked_bright, unmasked_dim])) = 1/8"
    by (simp_all add: unmasked_pixels_def unmasked_images_def masked_bright_def unmasked_dim_def)
  have bright: "np_max (masked_pixels masked_bright) = Inr (7/8)"
    by (simp add: np_max_def masked_pixels_def masked_bright_def)
  have am: "list_all has_mask [masked_bright, masked_bright]"
    by (simp add: masked_bright_def)
  note mixed = prepare_group_unmasked_only[OF run_mixed]
  note masked = prepare_group_unmasked_only[OF run_masked]
  have m1: "mixed_dictionary HIGH_ALL_IMAGES = Some (Some (3/4))"
    using mixed hi um mx by simp
  have m2: "mixed_dictionary LOW_ALL_IMAGES = Some (Some (1/8))"
    using mixed lo um mn by simp
  have k1: "masked_dictionary HIGH_ALL_IMAGES = Some None"
    using masked hi am by blast
  have k2: "masked_dictionary LOW_ALL_IMAGES = Some None"
    using masked lo am by blast
  show ?thesis
    using run_mixed bright m1 m2 run_masked am k1 k2 by blast
qed

text \<open>
  C10. \<^verbatim>\<open>divide\<close> raises \<open>ZeroDivisionError\<close> exactly when the divisor is zero and
  otherwise divides every pixel by it; \<^verbatim>\<open>scale_by_image_maximum\<close> never raises
  \<open>ZeroDivisionError\<close>, and gives the pixels back unchanged when the maximum of the
  image under its mask is zero. Intensities are real numbers here.
\<close>

theorem divide_zero_only:
  "(divide_rescale data v = Inl ZeroDivisionError \<longleftrightarrow> v = 0) \<and>
   (v \<noteq> 0 \<longrightarrow> divide_rescale data v = Inr (map (\<lambda>x. x / v) data)) \<and>
   scale_by_image_maximum reference_image input_image \<noteq> Inl ZeroDivisionError \<and>
   (np_max (masked_pixels input_image) = Inr 0 \<longrightarrow>
      scale_by_image_maximum reference_image input_image = Inr (pixel_data input_image))"
  by (auto simp: divide_rescale_def scale_by_image_maximum_def np_max_def split: sum.splits if_splits)

theorem divide_zero_only_witness:
  "divide_rescale [1/2, 1] 2 = Inr [1/4, 1/2] \<and>
   divide_rescale [1/2, 1] 0 = Inl ZeroDivisionError \<and>
   np_max (masked_pixels black_image) = Inr 0 \<and>
   scale_by_image_maximum unmasked_dim black_image = Inr [0, 0] \<and>
   scale_by_image_maximum black_image unmasked_dim = Inr [0, 0]"
proof -
  have z: "np_max (masked_pixels black_image) = Inr 0"
    by (simp add: np_max_def masked_pixels_def black_image_def)
  have two: "(2::real) \<noteq> 0" by simp
  have other: "scale_by_image_maximum black_image unmasked_dim = Inr [0, 0]"
    by (simp add: scale_by_image_maximum_def np_max_def masked_pixels_def black_image_def
        unmasked_dim_def divide_rescale_def)
  show ?thesis
    using divide_zero_only[of "[1/2, 1]" 2 unmasked_dim black_image]
      divide_zero_only[of "[1/2, 1]" 0 unmasked_dim black_image] z two other
    by (simp add: black_image_def)
qed


end
